theory Spec2Isabelle
  imports Complex_Main "HOL-Library.Char_ord" "HOL-Library.List_Lexorder"
begin

section \<open>Python values shared by the three scripts\<close>

text \<open>
  The scripts are Python. Exceptions are values of a sum type: \<open>Inl e\<close> is a raised
  exception, \<open>Inr v\<close> a normal return. An exception carries its class and its message.
  \<open>is_Exception\<close> tells the classes below Python's \<open>Exception\<close>, which
  \<open>except Exception\<close> catches, from \<open>KeyboardInterrupt\<close>, \<open>SystemExit\<close>,
  \<open>GeneratorExit\<close> and the other classes that derive from \<open>BaseException\<close> only.

  A message is a list of fragments: literal text, and \<open>Repr v\<close> where an f-string
  interpolates a list or a dict, standing for Python's \<open>repr\<close> of that value.
\<close>

datatype json =
    JNull
  | JBool bool
  | JInt int
  | JFloat rat
  | JStr string
  | JArr "json list"
  | JObj "(string \<times> json) list"

datatype fragment = Text string | Repr json

datatype exc_class =
    AssertionError
  | RuntimeError
  | TimeoutError
  | TypeError
  | ValueError
  | OverflowError
  | OtherException string
  | KeyboardInterrupt
  | SystemExit
  | GeneratorExit
  | OtherBaseException string

fun is_Exception :: "exc_class \<Rightarrow> bool" where
  "is_Exception KeyboardInterrupt = False"
| "is_Exception SystemExit = False"
| "is_Exception GeneratorExit = False"
| "is_Exception (OtherBaseException n) = False"
| "is_Exception c = True"

datatype error = Raise exc_class "fragment list"

fun exc_class_of :: "error \<Rightarrow> exc_class" where
  "exc_class_of (Raise c m) = c"

fun str_of_exc :: "error \<Rightarrow> fragment list" where
  "str_of_exc (Raise c m) = m"

record node =
  key :: string
  port :: nat
  server_name :: string

definition node_a :: node where
  "node_a = \<lparr>key = ''a'', port = 18081, server_name = ''node-a.test''\<rparr>"

definition node_b :: node where
  "node_b = \<lparr>key = ''b'', port = 18082, server_name = ''node-b.test''\<rparr>"

definition node_c :: node where
  "node_c = \<lparr>key = ''c'', port = 18083, server_name = ''node-c.test''\<rparr>"

section \<open>security\_gate\_check.py\<close>

text \<open>
  The tracker file is \<open>None\<close> when \<open>TRACKER_PATH.exists()\<close> is false, and otherwise
  the list of its lines (the result of \<open>read_text().splitlines()\<close>).

  \<open>ROW_RE\<close> is
  \<^verbatim>\<open>^\| (P0-\d{2}) \| [^|]+ \| [^|]+ \| [^|]+ \| (OPEN|IN_PROGRESS|BLOCKED) \|\<close>.
  \<open>row_cell\<close> matches one \<^verbatim>\<open>[^|]+ \| \<close>: the characters up to the next bar,
  the last of them a space that the literal takes back from the greedy class, which
  must keep at least one character; then the bar and a space.
\<close>

definition is_digit :: "char \<Rightarrow> bool" where
  "is_digit ch = (ch \<in> set ''0123456789'')"

fun strip_prefix :: "string \<Rightarrow> string \<Rightarrow> string option" where
  "strip_prefix [] s = Some s"
| "strip_prefix (p # ps) [] = None"
| "strip_prefix (p # ps) (x # xs) = (if p = x then strip_prefix ps xs else None)"

definition row_cell :: "string \<Rightarrow> string option" where
  "row_cell s =
     (let cell = takeWhile (\<lambda>ch. ch \<noteq> CHR ''|'') s;
          rest = dropWhile (\<lambda>ch. ch \<noteq> CHR ''|'') s
      in if 2 \<le> length cell \<and> last cell = CHR '' '' then strip_prefix ''| '' rest
         else None)"

definition row_status :: "string \<Rightarrow> string option" where
  "row_status s =
     (if strip_prefix ''OPEN |'' s \<noteq> None then Some ''OPEN''
      else if strip_prefix ''IN_PROGRESS |'' s \<noteq> None then Some ''IN_PROGRESS''
      else if strip_prefix ''BLOCKED |'' s \<noteq> None then Some ''BLOCKED''
      else None)"

definition ROW_RE_match :: "string \<Rightarrow> (string \<times> string) option" where
  "ROW_RE_match line =
     (case strip_prefix ''| P0-'' line of
        None \<Rightarrow> None
      | Some s1 \<Rightarrow>
          (case s1 of
             d1 # d2 # s2 \<Rightarrow>
               (if is_digit d1 \<and> is_digit d2 then
                  (case strip_prefix '' | '' s2 of
                     None \<Rightarrow> None
                   | Some s3 \<Rightarrow>
                       (case row_cell s3 of
                          None \<Rightarrow> None
                        | Some s4 \<Rightarrow>
                            (case row_cell s4 of
                               None \<Rightarrow> None
                             | Some s5 \<Rightarrow>
                                 (case row_cell s5 of
                                    None \<Rightarrow> None
                                  | Some s6 \<Rightarrow>
                                      (case row_status s6 of
                                         None \<Rightarrow> None
                                       | Some st \<Rightarrow> Some (''P0-'' @ [d1, d2], st))))))
                else None)
           | _ \<Rightarrow> None))"

text \<open>
  A function body is a sequence of statements. A statement either returns from the
  function (with the exit code, and what has been printed) or falls through to the next
  statement; \<open>then_stmt\<close> is the semicolon.
\<close>

datatype stmt_result = Returned int "string list" | Next_stmt "string list"

fun then_stmt :: "stmt_result \<Rightarrow> (string list \<Rightarrow> stmt_result) \<Rightarrow> stmt_result" where
  "then_stmt (Returned code out) rest = Returned code out"
| "then_stmt (Next_stmt out) rest = rest out"

definition blocked_rows :: "string list \<Rightarrow> (string \<times> string) list" where
  "blocked_rows ls = List.map_filter ROW_RE_match ls"

text \<open>The statements of \<open>main\<close> below its first line.\<close>

definition gate_statements :: "string list option \<Rightarrow> string list \<Rightarrow> stmt_result" where
  "gate_statements tracker out =
     (case tracker of
        None \<Rightarrow> Returned 1 (out @ [''Missing SECURITY_REMEDIATION_TRACKER.md''])
      | Some ls \<Rightarrow>
          (let blocked = blocked_rows ls in
           if blocked \<noteq> [] then
             Returned 1
               (out @ [''Release gate failed: one or more P0 tasks are not DONE.'']
                    @ map (\<lambda>(task_id, status). ''- '' @ task_id @ '': '' @ status) blocked)
           else
             Returned 0 (out @ [''Security release gate passed: all P0 tasks are DONE.''])))"

text \<open>\<open>main\<close> of security\_gate\_check.py: \<open>return 0\<close>, then the statements above.\<close>

definition security_gate_main :: "string list option \<Rightarrow> stmt_result" where
  "security_gate_main tracker = then_stmt (Returned 0 []) (gate_statements tracker)"

section \<open>The durable store read by both validation scripts\<close>

text \<open>
  Each node has its own SQLite file. The tables the final checks read are modelled as
  lists of rows; \<open>SELECT COUNT(*) ... WHERE\<close> is the length of the filtered list.
\<close>

record delivery_attempt =
  event_id :: string
  destination_server :: string

record federated_server =
  fs_server_name :: string
  trusted :: bool

record node_db =
  federation_delivery_attempts :: "delivery_attempt list"
  federation_events :: "string list"
  federated_servers :: "federated_server list"

definition count_delivery_attempts :: "node_db \<Rightarrow> string \<Rightarrow> string \<Rightarrow> int" where
  "count_delivery_attempts db ev dest =
     int (length (filter (\<lambda>r. event_id r = ev \<and> destination_server r = dest)
                         (federation_delivery_attempts db)))"

definition count_federation_events :: "node_db \<Rightarrow> string \<Rightarrow> int" where
  "count_federation_events db ev = int (length (filter (\<lambda>e. e = ev) (federation_events db)))"

text \<open>federation\_e2e\_validation.py, lines 363-379.\<close>

definition e2e_relay_check :: "node_db \<Rightarrow> node_db \<Rightarrow> node_db \<Rightarrow> string \<Rightarrow> error + unit" where
  "e2e_relay_check a_db b_db c_db origin_event_id =
     (let a_to_c = count_delivery_attempts a_db origin_event_id (server_name node_c);
          b_to_c = count_delivery_attempts b_db origin_event_id (server_name node_c);
          c_has_event = count_federation_events c_db origin_event_id
      in if a_to_c \<noteq> 0 then
           Inl (Raise AssertionError [Text ''A unexpectedly delivered message directly to C''])
         else if b_to_c \<le> 0 \<or> c_has_event \<le> 0 then
           Inl (Raise AssertionError
                  [Text ''Relay evidence missing: expected B->C delivery and C event''])
         else Inr ())"

text \<open>federation\_live\_fundamentals\_validation.py, lines 798-814.\<close>

definition live_relay_check :: "node_db \<Rightarrow> node_db \<Rightarrow> node_db \<Rightarrow> string \<Rightarrow> error + unit" where
  "live_relay_check a_db b_db c_db origin_event_id =
     (let a_to_c = count_delivery_attempts a_db origin_event_id (server_name node_c);
          b_to_c = count_delivery_attempts b_db origin_event_id (server_name node_c);
          c_has_event = count_federation_events c_db origin_event_id
      in if c_has_event \<le> 0 then
           Inl (Raise AssertionError [Text ''C did not ingest A-origin event''])
         else if a_to_c \<le> 0 \<and> b_to_c \<le> 0 then
           Inl (Raise AssertionError
                  [Text ''No delivery attempt to C observed from A or B''])
         else Inr ())"

text \<open>
  The three pieces of evidence of the relay proof, as facts about the stores: a
  delivery-attempt row for the event with destination C in the store of the sending node,
  and an ingestion row for the event in C's store.
\<close>

definition attempt_exists :: "node_db \<Rightarrow> string \<Rightarrow> string \<Rightarrow> bool" where
  "attempt_exists db ev dest =
     (\<lparr>event_id = ev, destination_server = dest\<rparr> \<in> set (federation_delivery_attempts db))"

definition ingested :: "node_db \<Rightarrow> string \<Rightarrow> bool" where
  "ingested db ev = (ev \<in> set (federation_events db))"

text \<open>
  The trusted-peer query. \<open>ORDER BY server_name\<close> sorts in byte order
  (the e2e script only).
\<close>

definition trusted_peer_names :: "node_db \<Rightarrow> string list" where
  "trusted_peer_names db = map fs_server_name (filter trusted (federated_servers db))"

text \<open>federation\_e2e\_validation.py, lines 525-531.\<close>

definition e2e_final_assertions :: "node_db \<Rightarrow> error + unit" where
  "e2e_final_assertions a_db =
     (let peer_names = sort (trusted_peer_names a_db)
      in if peer_names \<noteq> [server_name node_b] then
           Inl (Raise AssertionError
                  [Text ''Unexpected A trusted peers: '', Repr (JArr (map JStr peer_names))])
         else Inr ())"

text \<open>federation\_live\_fundamentals\_validation.py, lines 1314-1320.\<close>

definition live_final_assertions :: "node_db \<Rightarrow> error + unit" where
  "live_final_assertions a_db =
     (let peer_names = trusted_peer_names a_db
      in if server_name node_b \<notin> set peer_names then
           Inl (Raise AssertionError
                  [Text (''A is missing trusted peer '' @ server_name node_b @ '': ''),
                   Repr (JArr (map JStr peer_names))])
         else Inr ())"

text \<open>
  The trust links the scripts configure with \<open>add_trusted_peer\<close> (source, peer), in
  both scripts: A trusts B; B trusts A and C; C trusts B and A.
\<close>

definition configured_trust_links :: "(string \<times> string) list" where
  "configured_trust_links =
     [(key node_a, server_name node_b),
      (key node_b, server_name node_a),
      (key node_b, server_name node_c),
      (key node_c, server_name node_b),
      (key node_c, server_name node_a)]"

definition configured_trusted_set :: "string \<Rightarrow> string set" where
  "configured_trusted_set k = snd ` set (filter (\<lambda>l. fst l = k) configured_trust_links)"

section \<open>Verification: release gate, relay check, trusted peers\<close>

lemma count_pos_iff: "(int (length (filter P xs)) \<le> 0) = (\<not> (\<exists>x \<in> set xs. P x))"
  by (simp add: filter_empty_conv)

lemma count_delivery_attempts_pos:
  "(count_delivery_attempts db ev dest \<le> 0) = (\<not> attempt_exists db ev dest)"
proof -
  have "(\<exists>r \<in> set (federation_delivery_attempts db). event_id r = ev \<and> destination_server r = dest)
        = (\<lparr>event_id = ev, destination_server = dest\<rparr> \<in> set (federation_delivery_attempts db))"
  proof
    assume "\<exists>r \<in> set (federation_delivery_attempts db). event_id r = ev \<and> destination_server r = dest"
    then obtain r where r: "r \<in> set (federation_delivery_attempts db)" "event_id r = ev" "destination_server r = dest"
      by blast
    then have "r = \<lparr>event_id = ev, destination_server = dest\<rparr>" by simp
    with r show "\<lparr>event_id = ev, destination_server = dest\<rparr> \<in> set (federation_delivery_attempts db)" by simp
  next
    assume "\<lparr>event_id = ev, destination_server = dest\<rparr> \<in> set (federation_delivery_attempts db)"
    then show "\<exists>r \<in> set (federation_delivery_attempts db). event_id r = ev \<and> destination_server r = dest"
      by force
  qed
  then show ?thesis
    unfolding count_delivery_attempts_def attempt_exists_def count_pos_iff by simp
qed

lemma count_delivery_attempts_zero:
  "(count_delivery_attempts db ev dest \<noteq> 0) = attempt_exists db ev dest"
proof -
  have "0 \<le> count_delivery_attempts db ev dest" by (simp add: count_delivery_attempts_def)
  then show ?thesis using count_delivery_attempts_pos [of db ev dest] by linarith
qed

lemma count_federation_events_pos:
  "(count_federation_events db ev \<le> 0) = (\<not> ingested db ev)"
  unfolding count_federation_events_def ingested_def count_pos_iff by auto

text \<open>
  Claim C3. \<open>main\<close> of security\_gate\_check.py returns exit code 0 and prints nothing,
  whatever the tracker file holds and whether it exists: the first statement returns, so
  the statements that read the tracker (\<open>gate_statements\<close>) are never run.
\<close>

theorem security_gate_always_passes:
  "security_gate_main tracker = Returned 0 []"
  by (simp add: security_gate_main_def)

text \<open>What the unreachable statements would have reported.\<close>

lemma gate_statements_missing:
  "gate_statements None [] = Returned 1 [''Missing SECURITY_REMEDIATION_TRACKER.md'']"
  by (simp add: gate_statements_def)

lemma ROW_RE_match_example:
  "ROW_RE_match ''| P0-01 | Rotate keys | infra | 2026-01-01 | OPEN | note |'' = Some (''P0-01'', ''OPEN'')"
  by (simp add: ROW_RE_match_def row_cell_def row_status_def is_digit_def)

lemma gate_statements_open_row:
  "gate_statements (Some [''| P0-01 | Rotate keys | infra | 2026-01-01 | OPEN | note |'']) []
     = Returned 1 [''Release gate failed: one or more P0 tasks are not DONE.'', ''- P0-01: OPEN'']"
  by (simp add: gate_statements_def blocked_rows_def List.map_filter_def ROW_RE_match_example)

text \<open>
  Claim C1, as amended. The relay check of federation\_e2e\_validation.py passes exactly
  when no A-to-C delivery attempt exists, a B-to-C delivery attempt exists and C has
  ingested the event. The relay check of federation\_live\_fundamentals\_validation.py
  passes exactly when C has ingested the event and a delivery attempt to C exists in A's
  store or in B's store.
\<close>

theorem relay_check_conditions:
  "(e2e_relay_check a_db b_db c_db ev = Inr ()) =
     (\<not> attempt_exists a_db ev (server_name node_c) \<and>
      attempt_exists b_db ev (server_name node_c) \<and> ingested c_db ev)
   \<and> (live_relay_check a_db b_db c_db ev = Inr ()) =
     (ingested c_db ev \<and>
      (attempt_exists a_db ev (server_name node_c) \<or> attempt_exists b_db ev (server_name node_c)))"
  unfolding e2e_relay_check_def live_relay_check_def Let_def
  using count_delivery_attempts_zero [of a_db ev "server_name node_c"]
        count_delivery_attempts_pos [of a_db ev "server_name node_c"]
        count_delivery_attempts_pos [of b_db ev "server_name node_c"]
        count_federation_events_pos [of c_db ev]
  by auto

text \<open>
  Stores in which A attempted direct delivery to C while the relay evidence (B-to-C
  attempt, ingestion at C) is also present.
\<close>

definition direct_and_relay_a_db :: node_db where
  "direct_and_relay_a_db =
     \<lparr>federation_delivery_attempts =
        [\<lparr>event_id = ''$1:node-a.test'', destination_server = ''node-b.test''\<rparr>,
         \<lparr>event_id = ''$1:node-a.test'', destination_server = ''node-c.test''\<rparr>],
      federation_events = [''$1:node-a.test''], federated_servers = []\<rparr>"

definition direct_and_relay_b_db :: node_db where
  "direct_and_relay_b_db =
     \<lparr>federation_delivery_attempts =
        [\<lparr>event_id = ''$1:node-a.test'', destination_server = ''node-c.test''\<rparr>],
      federation_events = [''$1:node-a.test''], federated_servers = []\<rparr>"

definition direct_and_relay_c_db :: node_db where
  "direct_and_relay_c_db =
     \<lparr>federation_delivery_attempts = [],
      federation_events = [''$1:node-a.test''], federated_servers = []\<rparr>"

text \<open>
  Counterexample to claim C1 as stated: with a direct A-to-C delivery attempt on record
  and the relay evidence present, the live script's relay check passes.
\<close>

theorem live_relay_check_accepts_direct_edge:
  "attempt_exists direct_and_relay_a_db ''$1:node-a.test'' (server_name node_c) \<and>
   attempt_exists direct_and_relay_b_db ''$1:node-a.test'' (server_name node_c) \<and>
   ingested direct_and_relay_c_db ''$1:node-a.test'' \<and>
   live_relay_check direct_and_relay_a_db direct_and_relay_b_db direct_and_relay_c_db
     ''$1:node-a.test'' = Inr ()"
  by (simp add: live_relay_check_def attempt_exists_def ingested_def node_c_def
      count_delivery_attempts_def count_federation_events_def
      direct_and_relay_a_db_def direct_and_relay_b_db_def direct_and_relay_c_db_def)

lemma sort_eq_singleton: "(sort xs = [b]) = (xs = [b])"
proof
  assume h: "sort xs = [b]"
  have "length xs = length (sort xs)" by simp
  then have l: "length xs = 1" using h by simp
  have "set xs = set (sort xs)" by simp
  then have s: "set xs = {b}" using h by simp
  from l obtain y where "xs = [y]" by (cases xs) auto
  with s show "xs = [b]" by simp
next
  assume "xs = [b]" then show "sort xs = [b]" by simp
qed

lemma configured_trusted_set_a: "configured_trusted_set (key node_a) = {server_name node_b}"
  by (auto simp: configured_trusted_set_def configured_trust_links_def node_a_def node_b_def node_c_def)

text \<open>
  Claim C8, as amended. The final assertion of federation\_e2e\_validation.py passes
  exactly when the list of A's trusted peers is the single name of node B, and then the
  trusted set equals the configured one. The final assertion of
  federation\_live\_fundamentals\_validation.py passes exactly when node B's name is among
  A's trusted peers.
\<close>

theorem final_trust_assertions:
  "(e2e_final_assertions a_db = Inr ()) = (trusted_peer_names a_db = [server_name node_b])
   \<and> (e2e_final_assertions a_db = Inr () \<longrightarrow>
        set (trusted_peer_names a_db) = configured_trusted_set (key node_a))
   \<and> (live_final_assertions a_db = Inr ()) =
        (server_name node_b \<in> set (trusted_peer_names a_db))"
  by (auto simp: e2e_final_assertions_def live_final_assertions_def Let_def sort_eq_singleton
      configured_trusted_set_a)

text \<open>A's store after the configured links only, and with node C trusted as well.\<close>

definition only_b_trusted_db :: node_db where
  "only_b_trusted_db =
     \<lparr>federation_delivery_attempts = [], federation_events = [],
      federated_servers =
        [\<lparr>fs_server_name = ''node-b.test'', trusted = True\<rparr>,
         \<lparr>fs_server_name = ''node-c.test'', trusted = False\<rparr>]\<rparr>"

definition b_and_c_trusted_db :: node_db where
  "b_and_c_trusted_db =
     \<lparr>federation_delivery_attempts = [], federation_events = [],
      federated_servers =
        [\<lparr>fs_server_name = ''node-b.test'', trusted = True\<rparr>,
         \<lparr>fs_server_name = ''node-c.test'', trusted = True\<rparr>]\<rparr>"

theorem final_trust_assertions_witness:
  "e2e_final_assertions only_b_trusted_db = Inr () \<and>
   set (trusted_peer_names only_b_trusted_db) = configured_trusted_set (key node_a)"
proof -
  have h: "e2e_final_assertions only_b_trusted_db = Inr ()"
    by (simp add: e2e_final_assertions_def trusted_peer_names_def only_b_trusted_db_def
        node_b_def)
  from final_trust_assertions [of only_b_trusted_db]
  have "e2e_final_assertions only_b_trusted_db = Inr () \<longrightarrow>
        set (trusted_peer_names only_b_trusted_db) = configured_trusted_set (key node_a)"
    by blast
  with h show ?thesis by blast
qed

text \<open>
  Counterexample to claim C8 as stated: with node C trusted by A besides node B, the
  observed trusted set is larger than the configured one and the live script's final
  assertion passes.
\<close>

theorem live_final_assertions_accepts_extra_peer:
  "live_final_assertions b_and_c_trusted_db = Inr () \<and>
   set (trusted_peer_names b_and_c_trusted_db) \<noteq> configured_trusted_set (key node_a)"
  by (simp add: live_final_assertions_def trusted_peer_names_def b_and_c_trusted_db_def
      configured_trusted_set_a node_b_def)

section \<open>The eventual-consistency poller: \<open>wait_until\<close>\<close>

text \<open>
  Time is the reading of the clock in seconds, a rational number; Python's floats are
  taken as exact. \<open>wait_until\<close> reads the clock once for the deadline and once at every
  test of its loop. Between two readings the clock advances by what the call of the
  predicate and \<open>time.sleep\<close> take: a call of the predicate that starts at the reading
  \<open>t\<close> gives \<open>fn t\<close>, its outcome and the time it took, and a sleep entered at \<open>t\<close>
  lasts the requested time and \<open>oversleep tm t\<close> more. \<open>startup tm\<close> is the time between
  the reading that fixes the deadline and the first test of the loop. A negative
  duration counts as 0. The time of the other statements is counted with the call or
  the sleep next to them.

  Every iteration sleeps for a fixed positive time at least, so the number of remaining
  iterations is at most \<open>\<lceil>(deadline - now) / secs\<rceil>\<close>, which is the termination measure.
\<close>

lemma remaining_steps_decrease:
  fixes deadline now step :: rat
  assumes "now < deadline" and "0 < step"
  shows "nat \<lceil>(deadline - (now + step)) / step\<rceil> < nat \<lceil>(deadline - now) / step\<rceil>"
proof -
  have "0 < (deadline - now) / step" using assms by simp
  then have pos: "0 < \<lceil>(deadline - now) / step\<rceil>" by simp
  have "(deadline - (now + step)) / step = (deadline - now) / step - 1"
    using assms by (simp add: field_simps)
  then have "\<lceil>(deadline - (now + step)) / step\<rceil> = \<lceil>(deadline - now) / step - 1\<rceil>"
    by (rule arg_cong)
  also have "\<dots> = \<lceil>(deadline - now) / step\<rceil> - 1" by (rule ceiling_diff_one)
  finally show ?thesis using pos by linarith
qed

lemma later_steps_decrease:
  fixes deadline now step d :: rat
  assumes "now < deadline" and "0 < step" and "step \<le> d"
  shows "nat \<lceil>(deadline - (now + d)) / step\<rceil> < nat \<lceil>(deadline - now) / step\<rceil>"
proof -
  have "(deadline - (now + d)) / step \<le> (deadline - (now + step)) / step"
    using assms by (simp add: divide_right_mono)
  then have "\<lceil>(deadline - (now + d)) / step\<rceil> \<le> \<lceil>(deadline - (now + step)) / step\<rceil>"
    by (rule ceiling_mono)
  then have "nat \<lceil>(deadline - (now + d)) / step\<rceil> \<le> nat \<lceil>(deadline - (now + step)) / step\<rceil>"
    by simp
  with remaining_steps_decrease [OF assms(1,2)] show ?thesis by linarith
qed

text \<open>
  The outcome of a call of the predicate is a truth value or an exception object. The
  poller looks at an exception object in three ways. Its class decides whether
  \<open>except Exception\<close> catches it. The live script evaluates \<open>bool\<close> of the last caught
  object (\<open>if last_error:\<close>) and, in the f-string of its message, \<open>str\<close> of it; each is
  a call of a method of the object and may itself raise. \<open>plain e\<close> is an object of a
  built-in class: it is truthy and \<open>str\<close> gives its message.
\<close>

datatype raised =
  Raised (raised_error: error) (raised_bool: "error + bool") (raised_str: "error + fragment list")

definition plain :: "error \<Rightarrow> raised" where
  "plain e = Raised e (Inr True) (Inr (str_of_exc e))"

definition except_Exception :: "raised \<Rightarrow> bool" where
  "except_Exception x = is_Exception (exc_class_of (raised_error x))"

type_synonym polled = "rat \<Rightarrow> (raised + bool) \<times> rat"

record timing =
  startup :: rat
  oversleep :: "rat \<Rightarrow> rat"

definition after_call :: "polled \<Rightarrow> rat \<Rightarrow> rat" where
  "after_call fn now = now + max 0 (snd (fn now))"

definition after_sleep :: "timing \<Rightarrow> rat \<Rightarrow> rat \<Rightarrow> rat" where
  "after_sleep tm secs t = t + secs + max 0 (oversleep tm t)"

definition polls_left :: "rat \<Rightarrow> rat \<Rightarrow> rat \<Rightarrow> nat" where
  "polls_left deadline secs now = nat \<lceil>(deadline - now) / secs\<rceil>"

lemma poll_progress:
  assumes "now < deadline" and "0 < secs"
  shows "polls_left deadline secs (after_sleep tm secs (after_call fn now))
           < polls_left deadline secs now"
proof -
  let ?d = "after_sleep tm secs (after_call fn now) - now"
  have "secs \<le> ?d" by (simp add: after_sleep_def after_call_def)
  from later_steps_decrease [OF assms this] show ?thesis by (simp add: polls_left_def)
qed

lemma after_call_ge: "now \<le> after_call fn now"
  by (simp add: after_call_def)

lemma after_sleep_ge: "t + secs \<le> after_sleep tm secs t"
  by (simp add: after_sleep_def)

text \<open>federation\_e2e\_validation.py, \<open>wait_until\<close> (lines 161-170): the loop, then the raise.
  The loop ends with a \<open>return\<close>, with its condition false, or with an exception that
  \<open>except Exception\<close> does not catch; the clock is returned as well.\<close>

datatype loop_end = Succeeded | Expired | Propagated raised

function e2e_wait_loop :: "polled \<Rightarrow> timing \<Rightarrow> rat \<Rightarrow> rat \<Rightarrow> loop_end \<times> rat" where
  "e2e_wait_loop fn tm deadline now =
     (if now < deadline then
        (case fst (fn now) of
           Inr True \<Rightarrow> (Succeeded, after_call fn now)
         | Inr False \<Rightarrow>
             e2e_wait_loop fn tm deadline (after_sleep tm (1 / 2) (after_call fn now))
         | Inl x \<Rightarrow>
             (if except_Exception x
              then e2e_wait_loop fn tm deadline (after_sleep tm (1 / 2) (after_call fn now))
              else (Propagated x, after_call fn now)))
      else (Expired, now))"
  by pat_completeness auto
termination
  by (relation "measure (\<lambda>(fn, tm, deadline, now). polls_left deadline (1 / 2) now)")
     (simp_all add: poll_progress)

declare e2e_wait_loop.simps [simp del]

definition timed_out :: "string \<Rightarrow> error" where
  "timed_out desc = Raise TimeoutError [Text (''Timed out waiting for: '' @ desc)]"

definition e2e_wait_until ::
  "string \<Rightarrow> polled \<Rightarrow> timing \<Rightarrow> rat \<Rightarrow> rat \<Rightarrow> (error + unit) \<times> rat" where
  "e2e_wait_until desc fn tm timeout_s now =
     (let deadline = now + timeout_s in
      case e2e_wait_loop fn tm deadline (now + max 0 (startup tm)) of
        (Succeeded, t) \<Rightarrow> (Inr (), t)
      | (Propagated x, t) \<Rightarrow> (Inl (raised_error x), t)
      | (Expired, t) \<Rightarrow> (Inl (timed_out desc), t))"

text \<open>federation\_live\_fundamentals\_validation.py, \<open>wait_until\<close> (lines 223-235), which also
  remembers the last exception it caught. \<open>live_timeout\<close> is the exception raised by the
  two \<open>raise\<close> statements below the loop.\<close>

function live_wait_loop ::
  "polled \<Rightarrow> timing \<Rightarrow> rat \<Rightarrow> raised option \<Rightarrow> rat \<Rightarrow> loop_end \<times> raised option \<times> rat" where
  "live_wait_loop fn tm deadline last_error now =
     (if now < deadline then
        (case fst (fn now) of
           Inr True \<Rightarrow> (Succeeded, last_error, after_call fn now)
         | Inr False \<Rightarrow>
             live_wait_loop fn tm deadline last_error
               (after_sleep tm (2 / 5) (after_call fn now))
         | Inl x \<Rightarrow>
             (if except_Exception x
              then live_wait_loop fn tm deadline (Some x)
                     (after_sleep tm (2 / 5) (after_call fn now))
              else (Propagated x, last_error, after_call fn now)))
      else (Expired, last_error, now))"
  by pat_completeness auto
termination
  by (relation "measure (\<lambda>(fn, tm, deadline, last_error, now). polls_left deadline (2 / 5) now)")
     (simp_all add: poll_progress)

declare live_wait_loop.simps [simp del]

definition live_timeout :: "string \<Rightarrow> raised option \<Rightarrow> error" where
  "live_timeout desc last_error =
     (case last_error of
        None \<Rightarrow> timed_out desc
      | Some x \<Rightarrow>
          (case raised_bool x of
             Inl e \<Rightarrow> e
           | Inr False \<Rightarrow> timed_out desc
           | Inr True \<Rightarrow>
               (case raised_str x of
                  Inl e \<Rightarrow> e
                | Inr m \<Rightarrow>
                    Raise TimeoutError
                      ([Text (''Timed out waiting for: '' @ desc @ '' (last error: '')]
                       @ m @ [Text '')'']))))"

definition live_wait_until ::
  "string \<Rightarrow> polled \<Rightarrow> timing \<Rightarrow> rat \<Rightarrow> rat \<Rightarrow> (error + unit) \<times> rat" where
  "live_wait_until desc fn tm timeout_s now =
     (let deadline = now + timeout_s in
      case live_wait_loop fn tm deadline None (now + max 0 (startup tm)) of
        (Succeeded, last_error, t) \<Rightarrow> (Inr (), t)
      | (Propagated x, last_error, t) \<Rightarrow> (Inl (raised_error x), t)
      | (Expired, last_error, t) \<Rightarrow> (Inl (live_timeout desc last_error), t))"


section \<open>Verification: the poller\<close>

text \<open>
  \<open>as_not_yet_true fn\<close> is the predicate \<open>fn\<close> with every exception that
  \<open>except Exception\<close> catches replaced by the answer \<open>False\<close>, the call taking the same
  time.
\<close>

definition as_not_yet_true :: "polled \<Rightarrow> polled" where
  "as_not_yet_true fn t =
     (case fst (fn t) of
        Inl x \<Rightarrow> if except_Exception x then (Inr False, snd (fn t)) else fn t
      | Inr b \<Rightarrow> fn t)"

lemma poll_cases:
  obtains (is_true) "fst (fn now) = Inr True"
  | (is_false) "fst (fn now) = Inr False"
  | (swallowed) x where "fst (fn now) = Inl x" and "except_Exception x"
  | (propagated) x where "fst (fn now) = Inl x" and "\<not> except_Exception x"
proof (cases "fst (fn now)")
  case (Inl x)
  then show ?thesis using swallowed propagated by (cases "except_Exception x") auto
next
  case (Inr b)
  then show ?thesis using is_true is_false by (cases b) auto
qed

lemma next_poll_ge: "0 \<le> secs \<Longrightarrow> now \<le> after_sleep tm secs (after_call fn now)"
  by (simp add: after_sleep_def after_call_def add_nonneg_nonneg add.assoc)

lemma after_call_as_not_yet_true [simp]: "after_call (as_not_yet_true fn) t = after_call fn t"
  by (simp add: after_call_def as_not_yet_true_def split: sum.splits)

lemma as_not_yet_true_Inr [simp]:
  "fst (fn t) = Inr b \<Longrightarrow> fst (as_not_yet_true fn t) = Inr b"
  by (simp add: as_not_yet_true_def)

lemma as_not_yet_true_swallowed [simp]:
  "fst (fn t) = Inl x \<Longrightarrow> except_Exception x \<Longrightarrow> fst (as_not_yet_true fn t) = Inr False"
  by (simp add: as_not_yet_true_def)

lemma as_not_yet_true_propagated [simp]:
  "fst (fn t) = Inl x \<Longrightarrow> \<not> except_Exception x \<Longrightarrow> fst (as_not_yet_true fn t) = Inl x"
  by (simp add: as_not_yet_true_def)

text \<open>The loop of the e2e script, unfolded once.\<close>

lemma e2e_wait_loop_expired:
  "\<not> now < deadline \<Longrightarrow> e2e_wait_loop fn tm deadline now = (Expired, now)"
  by (subst e2e_wait_loop.simps) simp

lemma e2e_wait_loop_true:
  "now < deadline \<Longrightarrow> fst (fn now) = Inr True \<Longrightarrow>
     e2e_wait_loop fn tm deadline now = (Succeeded, after_call fn now)"
  by (subst e2e_wait_loop.simps) simp

lemma e2e_wait_loop_false:
  "now < deadline \<Longrightarrow> fst (fn now) = Inr False \<Longrightarrow>
     e2e_wait_loop fn tm deadline now =
     e2e_wait_loop fn tm deadline (after_sleep tm (1 / 2) (after_call fn now))"
  by (subst e2e_wait_loop.simps) simp

lemma e2e_wait_loop_swallowed:
  "now < deadline \<Longrightarrow> fst (fn now) = Inl x \<Longrightarrow> except_Exception x \<Longrightarrow>
     e2e_wait_loop fn tm deadline now =
     e2e_wait_loop fn tm deadline (after_sleep tm (1 / 2) (after_call fn now))"
  by (subst e2e_wait_loop.simps) simp

lemma e2e_wait_loop_propagated:
  "now < deadline \<Longrightarrow> fst (fn now) = Inl x \<Longrightarrow> \<not> except_Exception x \<Longrightarrow>
     e2e_wait_loop fn tm deadline now = (Propagated x, after_call fn now)"
  by (subst e2e_wait_loop.simps) simp

lemma e2e_wait_loop_as_not_yet_true:
  "e2e_wait_loop (as_not_yet_true fn) tm deadline now = e2e_wait_loop fn tm deadline now"
proof (induction "polls_left deadline (1 / 2) now" arbitrary: now rule: less_induct)
  case less
  show ?case
  proof (cases "now < deadline")
    case False
    then show ?thesis by (simp add: e2e_wait_loop_expired)
  next
    case True
    let ?next = "after_sleep tm (1 / 2) (after_call fn now)"
    have "polls_left deadline (1 / 2) ?next < polls_left deadline (1 / 2) now"
      using True by (simp add: poll_progress)
    then have IH: "e2e_wait_loop (as_not_yet_true fn) tm deadline ?next =
        e2e_wait_loop fn tm deadline ?next" by (rule less.hyps)
    show ?thesis
    proof (cases rule: poll_cases [of fn now])
      case is_true
      with True show ?thesis by (simp add: e2e_wait_loop_true)
    next
      case is_false
      with True IH show ?thesis by (simp add: e2e_wait_loop_false)
    next
      case (swallowed x)
      with True IH show ?thesis by (simp add: e2e_wait_loop_swallowed e2e_wait_loop_false)
    next
      case (propagated x)
      with True show ?thesis by (simp add: e2e_wait_loop_propagated)
    qed
  qed
qed

text \<open>
  How a loop entered at \<open>now\<close> can end: after a call that returned true, at a reading at
  or after the deadline, or with an exception that some call raised and
  \<open>except Exception\<close> does not catch.
\<close>

definition loop_end_at :: "polled \<Rightarrow> rat \<Rightarrow> rat \<Rightarrow> loop_end \<Rightarrow> rat \<Rightarrow> bool" where
  "loop_end_at fn deadline now e t =
     ((e = Succeeded \<and>
        (\<exists>t'. now \<le> t' \<and> t' < deadline \<and> fst (fn t') = Inr True \<and> t = after_call fn t'))
      \<or> (e = Expired \<and> deadline \<le> t \<and> now \<le> t)
      \<or> (\<exists>x t'. e = Propagated x \<and> now \<le> t' \<and> t' < deadline \<and> fst (fn t') = Inl x \<and>
            \<not> except_Exception x \<and> t = after_call fn t'))"

lemma loop_end_at_later:
  "loop_end_at fn deadline next e t \<Longrightarrow> now \<le> next \<Longrightarrow> loop_end_at fn deadline now e t"
  unfolding loop_end_at_def by (elim disjE conjE exE) (auto intro: order_trans)

lemma e2e_wait_loop_end:
  "e2e_wait_loop fn tm deadline now = (e, t) \<Longrightarrow> loop_end_at fn deadline now e t"
proof (induction "polls_left deadline (1 / 2) now" arbitrary: now rule: less_induct)
  case less
  show ?case
  proof (cases "now < deadline")
    case False
    with less.prems show ?thesis by (auto simp: e2e_wait_loop_expired loop_end_at_def)
  next
    case True
    let ?next = "after_sleep tm (1 / 2) (after_call fn now)"
    have lt: "polls_left deadline (1 / 2) ?next < polls_left deadline (1 / 2) now"
      using True by (simp add: poll_progress)
    have ge: "now \<le> ?next" by (simp add: next_poll_ge)
    show ?thesis
    proof (cases rule: poll_cases [of fn now])
      case is_true
      with True less.prems show ?thesis by (auto simp: e2e_wait_loop_true loop_end_at_def)
    next
      case is_false
      with True less.prems have "e2e_wait_loop fn tm deadline ?next = (e, t)"
        by (simp add: e2e_wait_loop_false)
      from less.hyps [OF lt this] ge show ?thesis by (rule loop_end_at_later)
    next
      case (swallowed x)
      with True less.prems have "e2e_wait_loop fn tm deadline ?next = (e, t)"
        by (simp add: e2e_wait_loop_swallowed)
      from less.hyps [OF lt this] ge show ?thesis by (rule loop_end_at_later)
    next
      case (propagated x)
      with True less.prems show ?thesis
        by (auto simp: e2e_wait_loop_propagated loop_end_at_def)
    qed
  qed
qed


text \<open>
  A predicate that answers true in every call that starts at or after \<open>T\<close> and false in
  every call that ends before \<open>T\<close>. If the next test always comes within \<open>period\<close> of
  the last one, a loop with room for one period after \<open>T\<close> succeeds; if a call always
  ends within \<open>cost\<close> and the deadline is \<open>cost\<close> before \<open>T\<close>, the loop expires.
\<close>

lemma e2e_wait_loop_threshold_success:
  assumes after: "\<forall>t. T \<le> t \<longrightarrow> fst (fn t) = Inr True"
    and bool: "\<forall>t. \<exists>b. fst (fn t) = Inr b"
    and period: "\<forall>t. after_sleep tm (1 / 2) (after_call fn t) \<le> t + period"
    and room: "T + period \<le> deadline"
  shows "now < deadline \<Longrightarrow> fst (e2e_wait_loop fn tm deadline now) = Succeeded"
proof (induction "polls_left deadline (1 / 2) now" arbitrary: now rule: less_induct)
  case less
  let ?next = "after_sleep tm (1 / 2) (after_call fn now)"
  have lt: "polls_left deadline (1 / 2) ?next < polls_left deadline (1 / 2) now"
    using less.prems by (simp add: poll_progress)
  from bool obtain b where b: "fst (fn now) = Inr b" by blast
  show ?case
  proof (cases b)
    case True
    with b less.prems show ?thesis by (simp add: e2e_wait_loop_true)
  next
    case False
    with b after have "now < T" by (cases "T \<le> now") auto
    moreover have "?next \<le> now + period" using period by blast
    ultimately have "?next < deadline" using room by linarith
    from less.hyps [OF lt this] b False less.prems show ?thesis
      by (simp add: e2e_wait_loop_false)
  qed
qed

lemma e2e_wait_loop_threshold_timeout:
  assumes before: "\<forall>t. after_call fn t < T \<longrightarrow> fst (fn t) = Inr False"
    and cost: "\<forall>t. after_call fn t \<le> t + cost"
    and short: "deadline + cost \<le> T"
  shows "fst (e2e_wait_loop fn tm deadline now) = Expired"
proof (induction "polls_left deadline (1 / 2) now" arbitrary: now rule: less_induct)
  case less
  show ?case
  proof (cases "now < deadline")
    case False
    then show ?thesis by (simp add: e2e_wait_loop_expired)
  next
    case True
    let ?next = "after_sleep tm (1 / 2) (after_call fn now)"
    have lt: "polls_left deadline (1 / 2) ?next < polls_left deadline (1 / 2) now"
      using True by (simp add: poll_progress)
    have "after_call fn now \<le> now + cost" using cost by blast
    with True short have "after_call fn now < T" by linarith
    with before have "fst (fn now) = Inr False" by blast
    with True less.hyps [OF lt] show ?thesis by (simp add: e2e_wait_loop_false)
  qed
qed

text \<open>The same for the loop of the live script.\<close>

lemma live_wait_loop_expired:
  "\<not> now < deadline \<Longrightarrow> live_wait_loop fn tm deadline last_error now = (Expired, last_error, now)"
  by (subst live_wait_loop.simps) simp

lemma live_wait_loop_true:
  "now < deadline \<Longrightarrow> fst (fn now) = Inr True \<Longrightarrow>
     live_wait_loop fn tm deadline last_error now = (Succeeded, last_error, after_call fn now)"
  by (subst live_wait_loop.simps) simp

lemma live_wait_loop_false:
  "now < deadline \<Longrightarrow> fst (fn now) = Inr False \<Longrightarrow>
     live_wait_loop fn tm deadline last_error now =
     live_wait_loop fn tm deadline last_error (after_sleep tm (2 / 5) (after_call fn now))"
  by (subst live_wait_loop.simps) simp

lemma live_wait_loop_swallowed:
  "now < deadline \<Longrightarrow> fst (fn now) = Inl x \<Longrightarrow> except_Exception x \<Longrightarrow>
     live_wait_loop fn tm deadline last_error now =
     live_wait_loop fn tm deadline (Some x) (after_sleep tm (2 / 5) (after_call fn now))"
  by (subst live_wait_loop.simps) simp

lemma live_wait_loop_propagated:
  "now < deadline \<Longrightarrow> fst (fn now) = Inl x \<Longrightarrow> \<not> except_Exception x \<Longrightarrow>
     live_wait_loop fn tm deadline last_error now = (Propagated x, last_error, after_call fn now)"
  by (subst live_wait_loop.simps) simp

lemma live_wait_loop_as_not_yet_true:
  "live_wait_loop (as_not_yet_true fn) tm deadline kept now =
     (fst (live_wait_loop fn tm deadline last_error now), kept,
      snd (snd (live_wait_loop fn tm deadline last_error now)))"
proof (induction "polls_left deadline (2 / 5) now" arbitrary: now last_error rule: less_induct)
  case less
  show ?case
  proof (cases "now < deadline")
    case False
    then show ?thesis by (simp add: live_wait_loop_expired)
  next
    case True
    let ?next = "after_sleep tm (2 / 5) (after_call fn now)"
    have lt: "polls_left deadline (2 / 5) ?next < polls_left deadline (2 / 5) now"
      using True by (simp add: poll_progress)
    note IH = less.hyps [OF lt]
    show ?thesis
    proof (cases rule: poll_cases [of fn now])
      case is_true
      with True show ?thesis by (simp add: live_wait_loop_true)
    next
      case is_false
      with True IH [of last_error] show ?thesis by (simp add: live_wait_loop_false)
    next
      case (swallowed x)
      with True IH [of "Some x"] show ?thesis
        by (simp add: live_wait_loop_swallowed live_wait_loop_false)
    next
      case (propagated x)
      with True show ?thesis by (simp add: live_wait_loop_propagated)
    qed
  qed
qed

definition remembered :: "polled \<Rightarrow> rat \<Rightarrow> rat \<Rightarrow> raised option \<Rightarrow> bool" where
  "remembered fn deadline now last_error =
     (\<exists>x t'. now \<le> t' \<and> t' < deadline \<and> fst (fn t') = Inl x \<and> except_Exception x \<and>
        last_error = Some x)"

lemma remembered_later:
  "remembered fn deadline next last_error \<Longrightarrow> now \<le> next \<Longrightarrow>
     remembered fn deadline now last_error"
  unfolding remembered_def by (elim conjE exE) (auto intro: order_trans)

lemma live_wait_loop_end:
  "live_wait_loop fn tm deadline last_error now = (e, kept, t) \<Longrightarrow>
     loop_end_at fn deadline now e t \<and>
     (kept = last_error \<or> remembered fn deadline now kept)"
proof (induction "polls_left deadline (2 / 5) now" arbitrary: now last_error rule: less_induct)
  case less
  show ?case
  proof (cases "now < deadline")
    case False
    with less.prems show ?thesis by (auto simp: live_wait_loop_expired loop_end_at_def)
  next
    case True
    let ?next = "after_sleep tm (2 / 5) (after_call fn now)"
    have lt: "polls_left deadline (2 / 5) ?next < polls_left deadline (2 / 5) now"
      using True by (simp add: poll_progress)
    have ge: "now \<le> ?next" by (simp add: next_poll_ge)
    show ?thesis
    proof (cases rule: poll_cases [of fn now])
      case is_true
      with True less.prems show ?thesis by (auto simp: live_wait_loop_true loop_end_at_def)
    next
      case is_false
      with True less.prems have "live_wait_loop fn tm deadline last_error ?next = (e, kept, t)"
        by (simp add: live_wait_loop_false)
      from less.hyps [OF lt this] ge show ?thesis
        using loop_end_at_later remembered_later by blast
    next
      case (swallowed x)
      with True less.prems have "live_wait_loop fn tm deadline (Some x) ?next = (e, kept, t)"
        by (simp add: live_wait_loop_swallowed)
      from less.hyps [OF lt this]
      have a: "loop_end_at fn deadline ?next e t"
        and b: "kept = Some x \<or> remembered fn deadline ?next kept" by simp_all
      have "remembered fn deadline now (Some x)"
        using swallowed True unfolding remembered_def by blast
      with b ge have "remembered fn deadline now kept" using remembered_later by blast
      with a ge show ?thesis using loop_end_at_later by blast
    next
      case (propagated x)
      with True less.prems show ?thesis
        by (auto simp: live_wait_loop_propagated loop_end_at_def)
    qed
  qed
qed

lemma live_wait_loop_threshold_success:
  assumes after: "\<forall>t. T \<le> t \<longrightarrow> fst (fn t) = Inr True"
    and bool: "\<forall>t. \<exists>b. fst (fn t) = Inr b"
    and period: "\<forall>t. after_sleep tm (2 / 5) (after_call fn t) \<le> t + period"
    and room: "T + period \<le> deadline"
  shows "now < deadline \<Longrightarrow> fst (live_wait_loop fn tm deadline last_error now) = Succeeded"
proof (induction "polls_left deadline (2 / 5) now" arbitrary: now rule: less_induct)
  case less
  let ?next = "after_sleep tm (2 / 5) (after_call fn now)"
  have lt: "polls_left deadline (2 / 5) ?next < polls_left deadline (2 / 5) now"
    using less.prems by (simp add: poll_progress)
  from bool obtain b where b: "fst (fn now) = Inr b" by blast
  show ?case
  proof (cases b)
    case True
    with b less.prems show ?thesis by (simp add: live_wait_loop_true)
  next
    case False
    with b after have "now < T" by (cases "T \<le> now") auto
    moreover have "?next \<le> now + period" using period by blast
    ultimately have "?next < deadline" using room by linarith
    from less.hyps [OF lt this] b False less.prems show ?thesis
      by (simp add: live_wait_loop_false)
  qed
qed

lemma live_wait_loop_threshold_timeout:
  assumes before: "\<forall>t. after_call fn t < T \<longrightarrow> fst (fn t) = Inr False"
    and cost: "\<forall>t. after_call fn t \<le> t + cost"
    and short: "deadline + cost \<le> T"
  shows "live_wait_loop fn tm deadline last_error now = 
           (Expired, last_error, snd (snd (live_wait_loop fn tm deadline last_error now)))"
proof (induction "polls_left deadline (2 / 5) now" arbitrary: now rule: less_induct)
  case less
  show ?case
  proof (cases "now < deadline")
    case False
    then show ?thesis by (simp add: live_wait_loop_expired)
  next
    case True
    let ?next = "after_sleep tm (2 / 5) (after_call fn now)"
    have lt: "polls_left deadline (2 / 5) ?next < polls_left deadline (2 / 5) now"
      using True by (simp add: poll_progress)
    have "after_call fn now \<le> now + cost" using cost by blast
    with True short have "after_call fn now < T" by linarith
    with before have "fst (fn now) = Inr False" by blast
    with True less.hyps [OF lt] show ?thesis by (simp add: live_wait_loop_false)
  qed
qed


text \<open>The results of the two functions in terms of their loops.\<close>

fun e2e_outcome :: "string \<Rightarrow> loop_end \<Rightarrow> error + unit" where
  "e2e_outcome desc Succeeded = Inr ()"
| "e2e_outcome desc Expired = Inl (timed_out desc)"
| "e2e_outcome desc (Propagated x) = Inl (raised_error x)"

fun live_outcome :: "string \<Rightarrow> raised option \<Rightarrow> loop_end \<Rightarrow> error + unit" where
  "live_outcome desc kept Succeeded = Inr ()"
| "live_outcome desc kept Expired = Inl (live_timeout desc kept)"
| "live_outcome desc kept (Propagated x) = Inl (raised_error x)"

lemma e2e_wait_until_loop:
  "e2e_wait_loop fn tm (now + timeout_s) (now + max 0 (startup tm)) = (e, t) \<Longrightarrow>
     e2e_wait_until desc fn tm timeout_s now = (e2e_outcome desc e, t)"
  by (cases e) (simp_all add: e2e_wait_until_def)

lemma live_wait_until_loop:
  "live_wait_loop fn tm (now + timeout_s) None (now + max 0 (startup tm)) = (e, kept, t) \<Longrightarrow>
     live_wait_until desc fn tm timeout_s now = (live_outcome desc kept e, t)"
  by (cases e) (simp_all add: live_wait_until_def)

lemma live_timeout_None [simp]: "live_timeout desc None = timed_out desc"
  by (simp add: live_timeout_def)

lemma live_timeout_printable:
  "raised_bool x = Inr True \<Longrightarrow> raised_str x = Inr m \<Longrightarrow>
     live_timeout desc (Some x) =
       Raise TimeoutError
         ([Text (''Timed out waiting for: '' @ desc @ '' (last error: '')] @ m @ [Text '')''])"
  by (simp add: live_timeout_def)

lemma e2e_swallow_as_false:
  "e2e_wait_until desc (as_not_yet_true fn) tm timeout_s now =
     e2e_wait_until desc fn tm timeout_s now"
  by (simp add: e2e_wait_until_def e2e_wait_loop_as_not_yet_true)

lemma e2e_outcomes:
  "fst (e2e_wait_until desc fn tm timeout_s now) = Inr ()
   \<or> (fst (e2e_wait_until desc fn tm timeout_s now) = Inl (timed_out desc) \<and>
       now + timeout_s \<le> snd (e2e_wait_until desc fn tm timeout_s now))
   \<or> (\<exists>x t. fst (fn t) = Inl x \<and> \<not> except_Exception x \<and>
         fst (e2e_wait_until desc fn tm timeout_s now) = Inl (raised_error x))"
proof -
  obtain e t where l: "e2e_wait_loop fn tm (now + timeout_s) (now + max 0 (startup tm)) = (e, t)"
    by (cases "e2e_wait_loop fn tm (now + timeout_s) (now + max 0 (startup tm))") auto
  note r = e2e_wait_until_loop [OF l, of desc]
  from e2e_wait_loop_end [OF l] show ?thesis
    unfolding loop_end_at_def r by (elim disjE conjE exE) auto
qed

lemma always_raising_expires:
  assumes "\<forall>t. \<exists>x. fst (fn t) = Inl x \<and> except_Exception x"
    and "loop_end_at fn deadline now e t"
  shows "e = Expired \<and> deadline \<le> t"
proof -
  have a: "\<And>t'. fst (fn t') \<noteq> Inr True" using assms(1) by (metis sum.distinct(1))
  have b: "\<And>t' x. fst (fn t') = Inl x \<Longrightarrow> except_Exception x"
    using assms(1) by (metis sum.inject(1))
  from assms(2) a b show ?thesis unfolding loop_end_at_def by blast
qed

lemma e2e_always_raising:
  assumes "\<forall>t. \<exists>x. fst (fn t) = Inl x \<and> except_Exception x"
  shows "fst (e2e_wait_until desc fn tm timeout_s now) = Inl (timed_out desc) \<and>
         now + timeout_s \<le> snd (e2e_wait_until desc fn tm timeout_s now)"
proof -
  obtain e t where l: "e2e_wait_loop fn tm (now + timeout_s) (now + max 0 (startup tm)) = (e, t)"
    by (cases "e2e_wait_loop fn tm (now + timeout_s) (now + max 0 (startup tm))") auto
  from always_raising_expires [OF assms e2e_wait_loop_end [OF l]]
  show ?thesis unfolding e2e_wait_until_loop [OF l] by simp
qed

lemma e2e_only_Exception:
  assumes "\<forall>t x. fst (fn t) = Inl x \<longrightarrow> except_Exception x"
  shows "fst (e2e_wait_until desc fn tm timeout_s now) = Inr () \<or>
         fst (e2e_wait_until desc fn tm timeout_s now) = Inl (timed_out desc)"
  using e2e_outcomes [of desc fn tm timeout_s now] assms by blast

lemma e2e_first_poll:
  assumes "now + max 0 (startup tm) < now + timeout_s"
  shows "(fst (fn (now + max 0 (startup tm))) = Inr True \<longrightarrow>
           e2e_wait_until desc fn tm timeout_s now =
             (Inr (), after_call fn (now + max 0 (startup tm))))
       \<and> (\<forall>x. fst (fn (now + max 0 (startup tm))) = Inl x \<and> \<not> except_Exception x \<longrightarrow>
           e2e_wait_until desc fn tm timeout_s now =
             (Inl (raised_error x), after_call fn (now + max 0 (startup tm))))"
  using assms
  by (auto simp: e2e_wait_until_def e2e_wait_loop_true e2e_wait_loop_propagated)

lemma e2e_polling_continues:
  assumes sw: "fst (fn (now + max 0 (startup tm))) = Inl x" "except_Exception x"
    and lt: "after_sleep tm (1 / 2) (after_call fn (now + max 0 (startup tm))) < now + timeout_s"
    and tr: "fst (fn (after_sleep tm (1 / 2) (after_call fn (now + max 0 (startup tm))))) = Inr True"
  shows "e2e_wait_until desc fn tm timeout_s now =
           (Inr (), after_call fn (after_sleep tm (1 / 2) (after_call fn (now + max 0 (startup tm)))))"
proof -
  let ?t0 = "now + max 0 (startup tm)"
  let ?t1 = "after_sleep tm (1 / 2) (after_call fn ?t0)"
  have "?t0 \<le> ?t1" by (simp add: next_poll_ge)
  with lt have t0: "?t0 < now + timeout_s" by linarith
  have "e2e_wait_loop fn tm (now + timeout_s) ?t0 = e2e_wait_loop fn tm (now + timeout_s) ?t1"
    using t0 sw by (rule e2e_wait_loop_swallowed)
  also have "\<dots> = (Succeeded, after_call fn ?t1)" using lt tr by (rule e2e_wait_loop_true)
  finally show ?thesis by (simp add: e2e_wait_until_def)
qed

lemma live_swallow_as_false:
  "snd (live_wait_until desc fn tm timeout_s now) =
     snd (live_wait_until desc (as_not_yet_true fn) tm timeout_s now)
   \<and> (fst (live_wait_until desc fn tm timeout_s now) =
        fst (live_wait_until desc (as_not_yet_true fn) tm timeout_s now)
      \<or> (fst (live_wait_until desc (as_not_yet_true fn) tm timeout_s now) = Inl (timed_out desc) \<and>
          (\<exists>x t. fst (fn t) = Inl x \<and> except_Exception x \<and>
             fst (live_wait_until desc fn tm timeout_s now) = Inl (live_timeout desc (Some x)))))"
proof -
  let ?D = "now + timeout_s" and ?t0 = "now + max 0 (startup tm)"
  obtain e kept t where l: "live_wait_loop fn tm ?D None ?t0 = (e, kept, t)"
    by (cases "live_wait_loop fn tm ?D None ?t0") auto
  have q: "live_wait_loop (as_not_yet_true fn) tm ?D None ?t0 = (e, None, t)"
    using live_wait_loop_as_not_yet_true [of fn tm ?D None ?t0 None] l by simp
  note r = live_wait_until_loop [OF l, of desc] live_wait_until_loop [OF q, of desc]
  from live_wait_loop_end [OF l] have k: "kept = None \<or> remembered fn ?D ?t0 kept" by simp
  show ?thesis
  proof (cases e)
    case Expired
    from k show ?thesis
    proof
      assume "kept = None"
      with Expired show ?thesis unfolding r by simp
    next
      assume "remembered fn ?D ?t0 kept"
      then obtain x t' where "fst (fn t') = Inl x" "except_Exception x" "kept = Some x"
        unfolding remembered_def by blast
      with Expired show ?thesis unfolding r by auto
    qed
  qed (simp_all add: r)
qed

lemma live_outcomes:
  "fst (live_wait_until desc fn tm timeout_s now) = Inr ()
   \<or> ((fst (live_wait_until desc fn tm timeout_s now) = Inl (timed_out desc) \<or>
        (\<exists>x t. fst (fn t) = Inl x \<and> except_Exception x \<and>
           fst (live_wait_until desc fn tm timeout_s now) = Inl (live_timeout desc (Some x))))
       \<and> now + timeout_s \<le> snd (live_wait_until desc fn tm timeout_s now))
   \<or> (\<exists>x t. fst (fn t) = Inl x \<and> \<not> except_Exception x \<and>
         fst (live_wait_until desc fn tm timeout_s now) = Inl (raised_error x))"
proof -
  let ?D = "now + timeout_s" and ?t0 = "now + max 0 (startup tm)"
  obtain e kept t where l: "live_wait_loop fn tm ?D None ?t0 = (e, kept, t)"
    by (cases "live_wait_loop fn tm ?D None ?t0") auto
  note r = live_wait_until_loop [OF l, of desc]
  from live_wait_loop_end [OF l] have en: "loop_end_at fn ?D ?t0 e t"
    and k: "kept = None \<or> remembered fn ?D ?t0 kept" by simp_all
  show ?thesis
  proof (cases e)
    case Succeeded
    then show ?thesis unfolding r by simp
  next
    case Expired
    with en have "?D \<le> t" unfolding loop_end_at_def by auto
    moreover from k have "live_timeout desc kept = timed_out desc \<or>
        (\<exists>x t. fst (fn t) = Inl x \<and> except_Exception x \<and>
           live_timeout desc kept = live_timeout desc (Some x))"
      unfolding remembered_def by auto
    ultimately show ?thesis using Expired unfolding r by simp
  next
    case (Propagated x)
    with en have "\<exists>t. fst (fn t) = Inl x \<and> \<not> except_Exception x"
      unfolding loop_end_at_def by auto
    with Propagated show ?thesis unfolding r by auto
  qed
qed

lemma live_always_raising:
  assumes raising: "\<forall>t. \<exists>x. fst (fn t) = Inl x \<and> except_Exception x"
  shows "now + timeout_s \<le> snd (live_wait_until desc fn tm timeout_s now)
       \<and> (now + max 0 (startup tm) < now + timeout_s \<longrightarrow>
            (\<exists>x t. fst (fn t) = Inl x \<and> except_Exception x \<and>
               fst (live_wait_until desc fn tm timeout_s now) = Inl (live_timeout desc (Some x))))
       \<and> (\<not> now + max 0 (startup tm) < now + timeout_s \<longrightarrow>
            fst (live_wait_until desc fn tm timeout_s now) = Inl (timed_out desc))"
proof -
  let ?D = "now + timeout_s" and ?t0 = "now + max 0 (startup tm)"
  obtain e kept t where l: "live_wait_loop fn tm ?D None ?t0 = (e, kept, t)"
    by (cases "live_wait_loop fn tm ?D None ?t0") auto
  note r = live_wait_until_loop [OF l, of desc]
  from live_wait_loop_end [OF l] have en: "loop_end_at fn ?D ?t0 e t" by simp
  from always_raising_expires [OF raising en] have e: "e = Expired" and t: "?D \<le> t" by simp_all
  have a: "?D \<le> snd (live_wait_until desc fn tm timeout_s now)" unfolding r using t by simp
  have b: "\<exists>x t. fst (fn t) = Inl x \<and> except_Exception x \<and>
               fst (live_wait_until desc fn tm timeout_s now) = Inl (live_timeout desc (Some x))"
    if lt: "?t0 < ?D"
  proof -
    from raising obtain x0 where x0: "fst (fn ?t0) = Inl x0" "except_Exception x0" by blast
    let ?t1 = "after_sleep tm (2 / 5) (after_call fn ?t0)"
    have "live_wait_loop fn tm ?D (Some x0) ?t1 = (e, kept, t)"
      using live_wait_loop_swallowed [where fn = fn and now = "?t0" and deadline = "?D"
          and x = x0 and tm = tm and last_error = None, OF lt x0] l by simp
    from live_wait_loop_end [OF this]
    have "kept = Some x0 \<or> remembered fn ?D ?t1 kept" by simp
    with x0 have "\<exists>x t. fst (fn t) = Inl x \<and> except_Exception x \<and> kept = Some x"
      unfolding remembered_def by blast
    with e show ?thesis unfolding r by auto
  qed
  have c: "fst (live_wait_until desc fn tm timeout_s now) = Inl (timed_out desc)"
    if nlt: "\<not> ?t0 < ?D"
  proof -
    from l nlt have "kept = None" by (simp add: live_wait_loop_expired)
    with e show ?thesis unfolding r by simp
  qed
  from a b c show ?thesis by blast
qed

lemma live_only_Exception:
  assumes "\<forall>t x. fst (fn t) = Inl x \<longrightarrow>
      except_Exception x \<and> raised_bool x = Inr True \<and> (\<exists>m. raised_str x = Inr m)"
  shows "fst (live_wait_until desc fn tm timeout_s now) = Inr () \<or>
         fst (live_wait_until desc fn tm timeout_s now) = Inl (timed_out desc) \<or>
         (\<exists>m. fst (live_wait_until desc fn tm timeout_s now) =
            Inl (Raise TimeoutError
              ([Text (''Timed out waiting for: '' @ desc @ '' (last error: '')] @ m @ [Text '')''])))"
proof -
  have "\<And>x t. fst (fn t) = Inl x \<Longrightarrow> \<exists>m. live_timeout desc (Some x) =
      Raise TimeoutError
        ([Text (''Timed out waiting for: '' @ desc @ '' (last error: '')] @ m @ [Text '')''])"
    using assms live_timeout_printable by blast
  with live_outcomes [of desc fn tm timeout_s now] assms show ?thesis by metis
qed

lemma live_first_poll:
  assumes "now + max 0 (startup tm) < now + timeout_s"
  shows "(fst (fn (now + max 0 (startup tm))) = Inr True \<longrightarrow>
           live_wait_until desc fn tm timeout_s now =
             (Inr (), after_call fn (now + max 0 (startup tm))))
       \<and> (\<forall>x. fst (fn (now + max 0 (startup tm))) = Inl x \<and> \<not> except_Exception x \<longrightarrow>
           live_wait_until desc fn tm timeout_s now =
             (Inl (raised_error x), after_call fn (now + max 0 (startup tm))))"
  using assms
  by (auto simp: live_wait_until_def live_wait_loop_true live_wait_loop_propagated)

lemma live_polling_continues:
  assumes sw: "fst (fn (now + max 0 (startup tm))) = Inl x" "except_Exception x"
    and lt: "after_sleep tm (2 / 5) (after_call fn (now + max 0 (startup tm))) < now + timeout_s"
    and tr: "fst (fn (after_sleep tm (2 / 5) (after_call fn (now + max 0 (startup tm))))) = Inr True"
  shows "live_wait_until desc fn tm timeout_s now =
           (Inr (), after_call fn (after_sleep tm (2 / 5) (after_call fn (now + max 0 (startup tm)))))"
proof -
  let ?t0 = "now + max 0 (startup tm)"
  let ?t1 = "after_sleep tm (2 / 5) (after_call fn ?t0)"
  have "?t0 \<le> ?t1" by (simp add: next_poll_ge)
  with lt have t0: "?t0 < now + timeout_s" by linarith
  have "live_wait_loop fn tm (now + timeout_s) None ?t0 =
        live_wait_loop fn tm (now + timeout_s) (Some x) ?t1"
    using t0 sw by (rule live_wait_loop_swallowed)
  also have "\<dots> = (Succeeded, Some x, after_call fn ?t1)" using lt tr by (rule live_wait_loop_true)
  finally show ?thesis by (simp add: live_wait_until_def)
qed


text \<open>The clock readings at the first and at the second test of the loop.\<close>

abbreviation first_test :: "timing \<Rightarrow> rat \<Rightarrow> rat" where
  "first_test tm now \<equiv> now + max 0 (startup tm)"

abbreviation second_test :: "polled \<Rightarrow> timing \<Rightarrow> rat \<Rightarrow> rat \<Rightarrow> rat" where
  "second_test fn tm secs now \<equiv> after_sleep tm secs (after_call fn (first_test tm now))"

text \<open>
  Claim C4, as amended. An exception of the predicate that \<open>except Exception\<close> catches
  is treated as the answer \<open>False\<close>: \<open>wait_until\<close> of the e2e script gives the same result
  and leaves the same clock as with the predicate \<open>as_not_yet_true fn\<close>, and so does
  \<open>wait_until\<close> of the live script, except that its final exception is built from the
  last caught object. Polling continues after such an exception: if the first call raises
  one and the second answers true before the deadline, \<open>wait_until\<close> returns. An
  exception that \<open>except Exception\<close> does not catch leaves \<open>wait_until\<close> at once. In
  every case \<open>wait_until\<close> returns, or raises its \<open>TimeoutError\<close> carrying the description
  with the deadline passed, or lets through an exception that is not an \<open>Exception\<close>;
  in the live script the final exception quotes the last caught object when that is
  truthy and printable, and is whatever \<open>bool\<close> or \<open>str\<close> of it raises otherwise. A
  predicate that raises an \<open>Exception\<close> at every call makes \<open>wait_until\<close> raise that
  \<open>TimeoutError\<close>, the deadline passed.
\<close>

theorem wait_until_swallows_Exception:
  "e2e_wait_until desc (as_not_yet_true fn) tm timeout_s now =
     e2e_wait_until desc fn tm timeout_s now
   \<and> snd (live_wait_until desc fn tm timeout_s now) =
       snd (live_wait_until desc (as_not_yet_true fn) tm timeout_s now)
   \<and> (fst (live_wait_until desc fn tm timeout_s now) =
        fst (live_wait_until desc (as_not_yet_true fn) tm timeout_s now)
      \<or> (fst (live_wait_until desc (as_not_yet_true fn) tm timeout_s now) = Inl (timed_out desc) \<and>
          (\<exists>x t. fst (fn t) = Inl x \<and> except_Exception x \<and>
             fst (live_wait_until desc fn tm timeout_s now) = Inl (live_timeout desc (Some x)))))
   \<and> (fst (e2e_wait_until desc fn tm timeout_s now) = Inr ()
      \<or> (fst (e2e_wait_until desc fn tm timeout_s now) = Inl (timed_out desc) \<and>
          now + timeout_s \<le> snd (e2e_wait_until desc fn tm timeout_s now))
      \<or> (\<exists>x t. fst (fn t) = Inl x \<and> \<not> except_Exception x \<and>
            fst (e2e_wait_until desc fn tm timeout_s now) = Inl (raised_error x)))
   \<and> (fst (live_wait_until desc fn tm timeout_s now) = Inr ()
      \<or> ((fst (live_wait_until desc fn tm timeout_s now) = Inl (timed_out desc) \<or>
           (\<exists>x t. fst (fn t) = Inl x \<and> except_Exception x \<and>
              fst (live_wait_until desc fn tm timeout_s now) = Inl (live_timeout desc (Some x))))
          \<and> now + timeout_s \<le> snd (live_wait_until desc fn tm timeout_s now))
      \<or> (\<exists>x t. fst (fn t) = Inl x \<and> \<not> except_Exception x \<and>
            fst (live_wait_until desc fn tm timeout_s now) = Inl (raised_error x)))
   \<and> (raised_bool y = Inr True \<and> raised_str y = Inr m \<longrightarrow>
        live_timeout desc (Some y) =
          Raise TimeoutError
            ([Text (''Timed out waiting for: '' @ desc @ '' (last error: '')] @ m @ [Text '')'']))
   \<and> ((\<forall>t x. fst (fn t) = Inl x \<longrightarrow> except_Exception x) \<longrightarrow>
        fst (e2e_wait_until desc fn tm timeout_s now) = Inr () \<or>
        fst (e2e_wait_until desc fn tm timeout_s now) = Inl (timed_out desc))
   \<and> ((\<forall>t. \<exists>x. fst (fn t) = Inl x \<and> except_Exception x) \<longrightarrow>
        fst (e2e_wait_until desc fn tm timeout_s now) = Inl (timed_out desc) \<and>
        now + timeout_s \<le> snd (e2e_wait_until desc fn tm timeout_s now) \<and>
        now + timeout_s \<le> snd (live_wait_until desc fn tm timeout_s now) \<and>
        (first_test tm now < now + timeout_s \<longrightarrow>
           (\<exists>x t. fst (fn t) = Inl x \<and> except_Exception x \<and>
              fst (live_wait_until desc fn tm timeout_s now) = Inl (live_timeout desc (Some x)))) \<and>
        (\<not> first_test tm now < now + timeout_s \<longrightarrow>
           fst (live_wait_until desc fn tm timeout_s now) = Inl (timed_out desc)))
   \<and> (first_test tm now < now + timeout_s \<and> fst (fn (first_test tm now)) = Inr True \<longrightarrow>
        e2e_wait_until desc fn tm timeout_s now = (Inr (), after_call fn (first_test tm now)) \<and>
        live_wait_until desc fn tm timeout_s now = (Inr (), after_call fn (first_test tm now)))
   \<and> (first_test tm now < now + timeout_s \<and> fst (fn (first_test tm now)) = Inl y \<and>
        \<not> except_Exception y \<longrightarrow>
        e2e_wait_until desc fn tm timeout_s now =
          (Inl (raised_error y), after_call fn (first_test tm now)) \<and>
        live_wait_until desc fn tm timeout_s now =
          (Inl (raised_error y), after_call fn (first_test tm now)))
   \<and> (fst (fn (first_test tm now)) = Inl y \<and> except_Exception y \<and>
        second_test fn tm (1 / 2) now < now + timeout_s \<and>
        fst (fn (second_test fn tm (1 / 2) now)) = Inr True \<longrightarrow>
        e2e_wait_until desc fn tm timeout_s now =
          (Inr (), after_call fn (second_test fn tm (1 / 2) now)))
   \<and> (fst (fn (first_test tm now)) = Inl y \<and> except_Exception y \<and>
        second_test fn tm (2 / 5) now < now + timeout_s \<and>
        fst (fn (second_test fn tm (2 / 5) now)) = Inr True \<longrightarrow>
        live_wait_until desc fn tm timeout_s now =
          (Inr (), after_call fn (second_test fn tm (2 / 5) now)))"
proof -
  note a = e2e_swallow_as_false [of desc fn tm timeout_s now]
  note b = live_swallow_as_false [of desc fn tm timeout_s now]
  note c = e2e_outcomes [of desc fn tm timeout_s now]
  note d = live_outcomes [of desc fn tm timeout_s now]
  have e: "raised_bool y = Inr True \<and> raised_str y = Inr m \<longrightarrow>
        live_timeout desc (Some y) =
          Raise TimeoutError
            ([Text (''Timed out waiting for: '' @ desc @ '' (last error: '')] @ m @ [Text '')''])"
    using live_timeout_printable by blast
  have f: "(\<forall>t x. fst (fn t) = Inl x \<longrightarrow> except_Exception x) \<longrightarrow>
        fst (e2e_wait_until desc fn tm timeout_s now) = Inr () \<or>
        fst (e2e_wait_until desc fn tm timeout_s now) = Inl (timed_out desc)"
    using e2e_only_Exception by blast
  have g: "(\<forall>t. \<exists>x. fst (fn t) = Inl x \<and> except_Exception x) \<longrightarrow>
        fst (e2e_wait_until desc fn tm timeout_s now) = Inl (timed_out desc) \<and>
        now + timeout_s \<le> snd (e2e_wait_until desc fn tm timeout_s now) \<and>
        now + timeout_s \<le> snd (live_wait_until desc fn tm timeout_s now) \<and>
        (first_test tm now < now + timeout_s \<longrightarrow>
           (\<exists>x t. fst (fn t) = Inl x \<and> except_Exception x \<and>
              fst (live_wait_until desc fn tm timeout_s now) = Inl (live_timeout desc (Some x)))) \<and>
        (\<not> first_test tm now < now + timeout_s \<longrightarrow>
           fst (live_wait_until desc fn tm timeout_s now) = Inl (timed_out desc))"
  proof
    assume r: "\<forall>t. \<exists>x. fst (fn t) = Inl x \<and> except_Exception x"
    from e2e_always_raising [OF r, of desc tm timeout_s now]
      live_always_raising [OF r, of now timeout_s desc tm]
    show "fst (e2e_wait_until desc fn tm timeout_s now) = Inl (timed_out desc) \<and>
        now + timeout_s \<le> snd (e2e_wait_until desc fn tm timeout_s now) \<and>
        now + timeout_s \<le> snd (live_wait_until desc fn tm timeout_s now) \<and>
        (first_test tm now < now + timeout_s \<longrightarrow>
           (\<exists>x t. fst (fn t) = Inl x \<and> except_Exception x \<and>
              fst (live_wait_until desc fn tm timeout_s now) = Inl (live_timeout desc (Some x)))) \<and>
        (\<not> first_test tm now < now + timeout_s \<longrightarrow>
           fst (live_wait_until desc fn tm timeout_s now) = Inl (timed_out desc))"
      by blast
  qed
  have h: "first_test tm now < now + timeout_s \<and> fst (fn (first_test tm now)) = Inr True \<longrightarrow>
        e2e_wait_until desc fn tm timeout_s now = (Inr (), after_call fn (first_test tm now)) \<and>
        live_wait_until desc fn tm timeout_s now = (Inr (), after_call fn (first_test tm now))"
    using e2e_first_poll [of now tm timeout_s fn desc] live_first_poll [of now tm timeout_s fn desc]
    by blast
  have i: "first_test tm now < now + timeout_s \<and> fst (fn (first_test tm now)) = Inl y \<and>
        \<not> except_Exception y \<longrightarrow>
        e2e_wait_until desc fn tm timeout_s now =
          (Inl (raised_error y), after_call fn (first_test tm now)) \<and>
        live_wait_until desc fn tm timeout_s now =
          (Inl (raised_error y), after_call fn (first_test tm now))"
    using e2e_first_poll [of now tm timeout_s fn desc] live_first_poll [of now tm timeout_s fn desc]
    by blast
  have j: "fst (fn (first_test tm now)) = Inl y \<and> except_Exception y \<and>
        second_test fn tm (1 / 2) now < now + timeout_s \<and>
        fst (fn (second_test fn tm (1 / 2) now)) = Inr True \<longrightarrow>
        e2e_wait_until desc fn tm timeout_s now =
          (Inr (), after_call fn (second_test fn tm (1 / 2) now))"
    using e2e_polling_continues [of fn now tm y timeout_s desc] by blast
  have k: "fst (fn (first_test tm now)) = Inl y \<and> except_Exception y \<and>
        second_test fn tm (2 / 5) now < now + timeout_s \<and>
        fst (fn (second_test fn tm (2 / 5) now)) = Inr True \<longrightarrow>
        live_wait_until desc fn tm timeout_s now =
          (Inr (), after_call fn (second_test fn tm (2 / 5) now))"
    using live_polling_continues [of fn now tm y timeout_s desc] by blast
  note b1 = b [THEN conjunct1] and b2 = b [THEN conjunct2]
  show ?thesis by (intro conjI a b1 b2 c d e f g h i j k)
qed


text \<open>
  A machine on which nothing overruns; a query that raises at every call, as it does
  while the database file is missing, each call taking 10 ms; and one that raises until
  the file appears at 0.4 s.
\<close>

definition prompt :: timing where
  "prompt = \<lparr>startup = 0, oversleep = (\<lambda>t. 0)\<rparr>"

definition db_error :: raised where
  "db_error = plain (Raise (OtherException ''sqlite3.OperationalError'')
                       [Text ''unable to open database file''])"

definition db_missing :: polled where
  "db_missing t = (Inl db_error, 1 / 100)"

definition db_appears :: polled where
  "db_appears t = (if t < 2 / 5 then Inl db_error else Inr True, 1 / 100)"

theorem wait_until_swallows_Exception_witness:
  "(\<forall>t. \<exists>x. fst (db_missing t) = Inl x \<and> except_Exception x)
   \<and> first_test prompt 0 < 0 + 30
   \<and> e2e_wait_until ''message replicated to B'' (as_not_yet_true db_missing) prompt 30 0 =
       e2e_wait_until ''message replicated to B'' db_missing prompt 30 0
   \<and> fst (e2e_wait_until ''message replicated to B'' db_missing prompt 30 0) =
       Inl (Raise TimeoutError [Text ''Timed out waiting for: message replicated to B''])
   \<and> 0 + 30 \<le> snd (e2e_wait_until ''message replicated to B'' db_missing prompt 30 0)
   \<and> fst (live_wait_until ''message replicated to B'' db_missing prompt 30 0) =
       Inl (Raise TimeoutError
         [Text ''Timed out waiting for: message replicated to B (last error: '',
          Text ''unable to open database file'', Text '')''])
   \<and> 0 + 30 \<le> snd (live_wait_until ''message replicated to B'' db_missing prompt 30 0)
   \<and> fst (db_appears (first_test prompt 0)) = Inl db_error
   \<and> except_Exception db_error
   \<and> fst (db_appears (second_test db_appears prompt (1 / 2) 0)) = Inr True
   \<and> fst (db_appears (second_test db_appears prompt (2 / 5) 0)) = Inr True
   \<and> e2e_wait_until ''message replicated to B'' db_appears prompt 30 0 = (Inr (), 13 / 25)
   \<and> live_wait_until ''message replicated to B'' db_appears prompt 30 0 = (Inr (), 21 / 50)"
proof -
  have ex: "except_Exception db_error"
    by (simp add: except_Exception_def db_error_def plain_def)
  have r: "\<forall>t. \<exists>x. fst (db_missing t) = Inl x \<and> except_Exception x"
    using ex by (simp add: db_missing_def)
  have ft: "first_test prompt 0 < 0 + 30" by (simp add: prompt_def)
  note m = wait_until_swallows_Exception
      [of "''message replicated to B''" db_missing prompt 30 0 db_error "[Text ''unable to open database file'']"]
  have pr: "raised_bool db_error = Inr True \<and>
      raised_str db_error = Inr [Text ''unable to open database file'']"
    by (simp add: db_error_def plain_def)
  from m have a: "e2e_wait_until ''message replicated to B'' (as_not_yet_true db_missing) prompt 30 0 =
       e2e_wait_until ''message replicated to B'' db_missing prompt 30 0" by blast
  from m r have b: "fst (e2e_wait_until ''message replicated to B'' db_missing prompt 30 0) =
       Inl (timed_out ''message replicated to B'')
     \<and> 0 + 30 \<le> snd (e2e_wait_until ''message replicated to B'' db_missing prompt 30 0)
     \<and> 0 + 30 \<le> snd (live_wait_until ''message replicated to B'' db_missing prompt 30 0)"
    by blast
  from m r ft have "\<exists>x t. fst (db_missing t) = Inl x \<and> except_Exception x \<and>
      fst (live_wait_until ''message replicated to B'' db_missing prompt 30 0) =
        Inl (live_timeout ''message replicated to B'' (Some x))" by blast
  then have c0: "fst (live_wait_until ''message replicated to B'' db_missing prompt 30 0) =
        Inl (live_timeout ''message replicated to B'' (Some db_error))"
    by (auto simp: db_missing_def)
  from m pr have "live_timeout ''message replicated to B'' (Some db_error) =
      Raise TimeoutError
        ([Text (''Timed out waiting for: '' @ ''message replicated to B'' @ '' (last error: '')]
         @ [Text ''unable to open database file''] @ [Text '')''])" by blast
  with c0 have c: "fst (live_wait_until ''message replicated to B'' db_missing prompt 30 0) =
       Inl (Raise TimeoutError
         [Text ''Timed out waiting for: message replicated to B (last error: '',
          Text ''unable to open database file'', Text '')''])" by simp
  note n = wait_until_swallows_Exception
      [of "''message replicated to B''" db_appears prompt 30 0 db_error "[]"]
  have f1: "fst (db_appears (first_test prompt 0)) = Inl db_error"
    by (simp add: db_appears_def prompt_def)
  have s1: "second_test db_appears prompt (1 / 2) 0 = 51 / 100"
    by (simp add: after_sleep_def after_call_def db_appears_def prompt_def)
  have s2: "second_test db_appears prompt (2 / 5) 0 = 41 / 100"
    by (simp add: after_sleep_def after_call_def db_appears_def prompt_def)
  have t1: "fst (db_appears (second_test db_appears prompt (1 / 2) 0)) = Inr True"
    unfolding s1 by (simp add: db_appears_def)
  have t2: "fst (db_appears (second_test db_appears prompt (2 / 5) 0)) = Inr True"
    unfolding s2 by (simp add: db_appears_def)
  have l1: "second_test db_appears prompt (1 / 2) 0 < 0 + 30" unfolding s1 by simp
  have l2: "second_test db_appears prompt (2 / 5) 0 < 0 + 30" unfolding s2 by simp
  have ac1: "after_call db_appears (second_test db_appears prompt (1 / 2) 0) = 13 / 25"
    unfolding s1 by (simp add: after_call_def db_appears_def)
  have ac2: "after_call db_appears (second_test db_appears prompt (2 / 5) 0) = 21 / 50"
    unfolding s2 by (simp add: after_call_def db_appears_def)
  from n f1 ex l1 t1 have "e2e_wait_until ''message replicated to B'' db_appears prompt 30 0 =
      (Inr (), after_call db_appears (second_test db_appears prompt (1 / 2) 0))" by blast
  then have d: "e2e_wait_until ''message replicated to B'' db_appears prompt 30 0 = (Inr (), 13 / 25)"
    unfolding ac1 .
  from n f1 ex l2 t2 have "live_wait_until ''message replicated to B'' db_appears prompt 30 0 =
      (Inr (), after_call db_appears (second_test db_appears prompt (2 / 5) 0))" by blast
  then have e: "live_wait_until ''message replicated to B'' db_appears prompt 30 0 = (Inr (), 21 / 50)"
    unfolding ac2 .
  from b have b': "fst (e2e_wait_until ''message replicated to B'' db_missing prompt 30 0) =
       Inl (Raise TimeoutError [Text ''Timed out waiting for: message replicated to B''])"
    by (simp add: timed_out_def)
  from r ft a b' b c f1 ex t1 t2 d e show ?thesis by (intro conjI) blast+
qed

text \<open>
  Counterexample to claim C4 as stated: an interrupt of the script while the predicate
  runs raises \<open>KeyboardInterrupt\<close> in it, which is not an \<open>Exception\<close>. Neither script
  swallows it: the first poll ends \<open>wait_until\<close> with \<open>KeyboardInterrupt\<close>, not with
  \<open>TimeoutError\<close>.
\<close>

definition interrupted :: polled where
  "interrupted t = (Inl (plain (Raise KeyboardInterrupt [])), 1 / 100)"

theorem wait_until_propagates_KeyboardInterrupt:
  "e2e_wait_until ''message replicated to B'' interrupted prompt 30 0 =
     (Inl (Raise KeyboardInterrupt []), 1 / 100)
   \<and> live_wait_until ''message replicated to B'' interrupted prompt 30 0 =
     (Inl (Raise KeyboardInterrupt []), 1 / 100)"
  by (simp add: e2e_wait_until_def live_wait_until_def e2e_wait_loop.simps
      live_wait_loop.simps interrupted_def prompt_def plain_def except_Exception_def
      after_call_def)

text \<open>In the live script an exception object whose \<open>__str__\<close> raises replaces the
  \<open>TimeoutError\<close>.\<close>

definition unprintable :: raised where
  "unprintable = Raised (Raise (OtherException ''BrokenError'') []) (Inr True)
                   (Inl (Raise TypeError [Text ''__str__ returned non-string (type NoneType)'']))"

lemma live_wait_until_unprintable_last_error:
  "live_wait_until ''message replicated to B'' (\<lambda>t. (Inl unprintable, 1 / 100)) prompt (3 / 10) 0 =
     (Inl (Raise TypeError [Text ''__str__ returned non-string (type NoneType)'']), 41 / 100)"
  by (simp add: live_wait_until_def live_wait_loop.simps unprintable_def prompt_def
      except_Exception_def after_call_def after_sleep_def live_timeout_def)


text \<open>
  Claim C5, as amended. Take a predicate that never raises, answers true in every call
  that starts at or after time \<open>T\<close> after the call of \<open>wait_until\<close>, and answers false in
  every call that ends before \<open>T\<close>. If the first test of the loop is before the deadline,
  the time from one test of the loop to the next (the call of the predicate and the
  sleep of 0.5 s, 0.4 s in the live script) never exceeds \<open>period\<close>, and
  \<open>T + period \<le> timeout_s\<close>, then \<open>wait_until\<close> returns. If a call of the predicate
  never takes more than \<open>cost\<close> and \<open>timeout_s + cost \<le> T\<close>, then \<open>wait_until\<close> raises
  its \<open>TimeoutError\<close>.
\<close>

theorem wait_until_threshold_predicate:
  assumes "\<forall>t. now + T \<le> t \<longrightarrow> fst (fn t) = Inr True"
    and "\<forall>t. after_call fn t < now + T \<longrightarrow> fst (fn t) = Inr False"
    and "\<forall>t. \<exists>b. fst (fn t) = Inr b"
  shows "(first_test tm now < now + timeout_s \<and>
          (\<forall>t. after_sleep tm (1 / 2) (after_call fn t) \<le> t + period) \<and>
          T + period \<le> timeout_s \<longrightarrow>
            fst (e2e_wait_until desc fn tm timeout_s now) = Inr ())
       \<and> (first_test tm now < now + timeout_s \<and>
          (\<forall>t. after_sleep tm (2 / 5) (after_call fn t) \<le> t + period) \<and>
          T + period \<le> timeout_s \<longrightarrow>
            fst (live_wait_until desc fn tm timeout_s now) = Inr ())
       \<and> ((\<forall>t. after_call fn t \<le> t + cost) \<and> timeout_s + cost \<le> T \<longrightarrow>
            fst (e2e_wait_until desc fn tm timeout_s now) = Inl (timed_out desc) \<and>
            fst (live_wait_until desc fn tm timeout_s now) = Inl (timed_out desc))"
proof (intro conjI impI)
  assume h: "first_test tm now < now + timeout_s \<and>
          (\<forall>t. after_sleep tm (1 / 2) (after_call fn t) \<le> t + period) \<and>
          T + period \<le> timeout_s"
  then have room: "(now + T) + period \<le> now + timeout_s" by simp
  from h have p: "\<forall>t. after_sleep tm (1 / 2) (after_call fn t) \<le> t + period"
    and lt: "first_test tm now < now + timeout_s" by simp_all
  obtain e t where l: "e2e_wait_loop fn tm (now + timeout_s) (first_test tm now) = (e, t)"
    by (cases "e2e_wait_loop fn tm (now + timeout_s) (first_test tm now)") auto
  from e2e_wait_loop_threshold_success [OF assms(1) assms(3) p room lt] l
  have "e = Succeeded" by simp
  then show "fst (e2e_wait_until desc fn tm timeout_s now) = Inr ()"
    unfolding e2e_wait_until_loop [OF l] by simp
next
  assume h: "first_test tm now < now + timeout_s \<and>
          (\<forall>t. after_sleep tm (2 / 5) (after_call fn t) \<le> t + period) \<and>
          T + period \<le> timeout_s"
  then have room: "(now + T) + period \<le> now + timeout_s" by simp
  from h have p: "\<forall>t. after_sleep tm (2 / 5) (after_call fn t) \<le> t + period"
    and lt: "first_test tm now < now + timeout_s" by simp_all
  obtain e kept t where
    l: "live_wait_loop fn tm (now + timeout_s) None (first_test tm now) = (e, kept, t)"
    by (cases "live_wait_loop fn tm (now + timeout_s) None (first_test tm now)") auto
  from live_wait_loop_threshold_success [OF assms(1) assms(3) p room lt, of None] l
  have "e = Succeeded" by simp
  then show "fst (live_wait_until desc fn tm timeout_s now) = Inr ()"
    unfolding live_wait_until_loop [OF l] by simp
next
  assume h: "(\<forall>t. after_call fn t \<le> t + cost) \<and> timeout_s + cost \<le> T"
  then have short: "(now + timeout_s) + cost \<le> now + T" by simp
  from h have c: "\<forall>t. after_call fn t \<le> t + cost" by simp
  obtain e t where l: "e2e_wait_loop fn tm (now + timeout_s) (first_test tm now) = (e, t)"
    by (cases "e2e_wait_loop fn tm (now + timeout_s) (first_test tm now)") auto
  from e2e_wait_loop_threshold_timeout [OF assms(2) c short, of tm "first_test tm now"] l
  have "e = Expired" by simp
  then show "fst (e2e_wait_until desc fn tm timeout_s now) = Inl (timed_out desc)"
    unfolding e2e_wait_until_loop [OF l] by simp
  obtain e' kept t' where
    l': "live_wait_loop fn tm (now + timeout_s) None (first_test tm now) = (e', kept, t')"
    by (cases "live_wait_loop fn tm (now + timeout_s) None (first_test tm now)") auto
  from live_wait_loop_threshold_timeout [OF assms(2) c short, of tm None "first_test tm now"] l'
  have "e' = Expired \<and> kept = None" by simp
  then show "fst (live_wait_until desc fn tm timeout_s now) = Inl (timed_out desc)"
    unfolding live_wait_until_loop [OF l'] by simp
qed

text \<open>The predicate that looks at the clock when called, answers whether \<open>T\<close> is reached,
  and takes \<open>cost\<close> to do so.\<close>

definition true_from :: "rat \<Rightarrow> rat \<Rightarrow> polled" where
  "true_from T cost t = (Inr (T \<le> t), cost)"

theorem wait_until_threshold_predicate_witness:
  "(\<forall>t. t < 0 + 9 / 10 \<or> fst (true_from (9 / 10) (3 / 50) t) = Inr True)
   \<and> (\<forall>t. 0 + 9 / 10 \<le> after_call (true_from (9 / 10) (3 / 50)) t \<or>
          fst (true_from (9 / 10) (3 / 50) t) = Inr False)
   \<and> (\<forall>t. \<exists>b. fst (true_from (9 / 10) (3 / 50) t) = Inr b)
   \<and> (\<forall>t. after_sleep prompt (1 / 2) (after_call (true_from (9 / 10) (3 / 50)) t) \<le> t + 14 / 25)
   \<and> (\<forall>t. after_sleep prompt (2 / 5) (after_call (true_from (9 / 10) (3 / 50)) t) \<le> t + 23 / 50)
   \<and> (\<forall>t. after_call (true_from (9 / 10) (3 / 50)) t \<le> t + 3 / 50)
   \<and> fst (e2e_wait_until ''message replicated to B'' (true_from (9 / 10) (3 / 50)) prompt
        (3 / 2) 0) = Inr ()
   \<and> fst (live_wait_until ''message replicated to B'' (true_from (9 / 10) (3 / 50)) prompt
        (7 / 5) 0) = Inr ()
   \<and> fst (e2e_wait_until ''message replicated to B'' (true_from (9 / 10) (3 / 50)) prompt
        (4 / 5) 0) = Inl (Raise TimeoutError [Text ''Timed out waiting for: message replicated to B''])
   \<and> fst (live_wait_until ''message replicated to B'' (true_from (9 / 10) (3 / 50)) prompt
        (4 / 5) 0) = Inl (Raise TimeoutError [Text ''Timed out waiting for: message replicated to B''])"
proof -
  let ?fn = "true_from (9 / 10) (3 / 50)"
  have h1: "\<forall>t. 0 + 9 / 10 \<le> t \<longrightarrow> fst (?fn t) = Inr True" by (simp add: true_from_def)
  have h2: "\<forall>t. after_call ?fn t < 0 + 9 / 10 \<longrightarrow> fst (?fn t) = Inr False"
    by (simp add: true_from_def after_call_def)
  have h3: "\<forall>t. \<exists>b. fst (?fn t) = Inr b" by (simp add: true_from_def)
  have p1: "\<forall>t. after_sleep prompt (1 / 2) (after_call ?fn t) \<le> t + 14 / 25"
    by (simp add: true_from_def after_call_def after_sleep_def prompt_def)
  have p2: "\<forall>t. after_sleep prompt (2 / 5) (after_call ?fn t) \<le> t + 23 / 50"
    by (simp add: true_from_def after_call_def after_sleep_def prompt_def)
  have c: "\<forall>t. after_call ?fn t \<le> t + 3 / 50"
    by (simp add: true_from_def after_call_def)
  have f1: "first_test prompt 0 < 0 + 3 / 2" by (simp add: prompt_def)
  have f2: "first_test prompt 0 < 0 + 7 / 5" by (simp add: prompt_def)
  have r1: "(9 / 10 :: rat) + 14 / 25 \<le> 3 / 2" by simp
  have r2: "(9 / 10 :: rat) + 23 / 50 \<le> 7 / 5" by simp
  have r3: "(4 / 5 :: rat) + 3 / 50 \<le> 9 / 10" by simp
  from wait_until_threshold_predicate [OF h1 h2 h3, of prompt "3 / 2" "14 / 25"
      "''message replicated to B''" "0", THEN conjunct1] f1 p1 r1
  have a: "fst (e2e_wait_until ''message replicated to B'' ?fn prompt (3 / 2) 0) = Inr ()"
    by blast
  from wait_until_threshold_predicate [OF h1 h2 h3, of prompt "7 / 5" "23 / 50"
      "''message replicated to B''" "0", THEN conjunct2, THEN conjunct1] f2 p2 r2
  have b: "fst (live_wait_until ''message replicated to B'' ?fn prompt (7 / 5) 0) = Inr ()"
    by blast
  from wait_until_threshold_predicate [OF h1 h2 h3, of prompt "4 / 5" "0"
      "''message replicated to B''" "3 / 50", THEN conjunct2, THEN conjunct2] c r3
  have d: "fst (e2e_wait_until ''message replicated to B'' ?fn prompt (4 / 5) 0) =
        Inl (timed_out ''message replicated to B'')
      \<and> fst (live_wait_until ''message replicated to B'' ?fn prompt (4 / 5) 0) =
        Inl (timed_out ''message replicated to B'')"
    by blast
  have h1': "\<forall>t. t < 0 + 9 / 10 \<or> fst (?fn t) = Inr True"
    by (auto simp: true_from_def)
  have h2': "\<forall>t. 0 + 9 / 10 \<le> after_call ?fn t \<or> fst (?fn t) = Inr False"
    by (auto simp: true_from_def after_call_def)
  from d have d': "fst (e2e_wait_until ''message replicated to B'' ?fn prompt (4 / 5) 0) =
        Inl (Raise TimeoutError [Text ''Timed out waiting for: message replicated to B''])
      \<and> fst (live_wait_until ''message replicated to B'' ?fn prompt (4 / 5) 0) =
        Inl (Raise TimeoutError [Text ''Timed out waiting for: message replicated to B''])"
    by (simp add: timed_out_def)
  show ?thesis by (intro conjI h1' h2' h3 p1 p2 c a b d' [THEN conjunct1] d' [THEN conjunct2])
qed

text \<open>
  Counterexample to claim C5 as stated: the predicate comes true at 0.7 s and the timeout
  is larger (0.9 s, and 0.75 s for the live script), yet \<open>wait_until\<close> raises
  \<open>TimeoutError\<close>, because no test of the loop falls between the two: the tests are at
  0 and 0.5 s, then at 1 s (at 0, 0.4 and 0.8 s in the live script). Likewise with a
  predicate that takes 60 ms and comes true at 0.9 s, and a timeout of 1.05 s: the tests
  are at 0, 0.56 and 1.12 s.
\<close>

theorem wait_until_poll_granularity:
  "(7 / 10 :: rat) < 9 / 10
   \<and> e2e_wait_until ''message replicated to B'' (true_from (7 / 10) 0) prompt (9 / 10) 0 =
       (Inl (Raise TimeoutError [Text ''Timed out waiting for: message replicated to B'']), 1)
   \<and> (7 / 10 :: rat) < 3 / 4
   \<and> live_wait_until ''message replicated to B'' (true_from (7 / 10) 0) prompt (3 / 4) 0 =
       (Inl (Raise TimeoutError [Text ''Timed out waiting for: message replicated to B'']), 4 / 5)
   \<and> (9 / 10 :: rat) < 21 / 20
   \<and> e2e_wait_until ''message replicated to B'' (true_from (9 / 10) (3 / 50)) prompt (21 / 20) 0 =
       (Inl (Raise TimeoutError [Text ''Timed out waiting for: message replicated to B'']), 28 / 25)"
  by (simp add: e2e_wait_until_def live_wait_until_def e2e_wait_loop.simps
      live_wait_loop.simps true_from_def prompt_def after_call_def after_sleep_def
      timed_out_def live_timeout_def)

section \<open>The gateway client: \<open>GatewayClient\<close> of federation\_live\_fundamentals\_validation.py\<close>

text \<open>
  A message is the dict that \<open>json.loads\<close> built from one frame. Python compares and
  returns such dicts by reference, so a message carries the identity of its object
  (\<open>obj_id\<close>) besides its content; \<open>next_object\<close> of the session is the next unused
  identity, and every parsed frame takes a new one.

  \<open>dget\<close> is \<open>dict.get\<close> (\<open>None\<close>, here \<open>JNull\<close>, for a missing key);
  \<open>py_eq_int\<close> is Python's \<open>==\<close> against an integer, under which \<open>False == 0\<close>
  and \<open>0.0 == 0\<close> hold.
\<close>

type_synonym jdict = "(string \<times> json) list"

record msg =
  obj_id :: nat
  content :: jdict

definition dget :: "jdict \<Rightarrow> string \<Rightarrow> json" where
  "dget d k = (case map_of d k of None \<Rightarrow> JNull | Some v \<Rightarrow> v)"

fun py_eq_int :: "json \<Rightarrow> int \<Rightarrow> bool" where
  "py_eq_int (JInt i) n = (i = n)"
| "py_eq_int (JFloat r) n = (r = of_int n)"
| "py_eq_int (JBool b) n = ((if b then 1 else 0) = n)"
| "py_eq_int v n = False"

fun py_eq_str :: "json \<Rightarrow> string \<Rightarrow> bool" where
  "py_eq_str (JStr s) t = (s = t)"
| "py_eq_str v t = False"

fun is_dict :: "json \<Rightarrow> bool" where
  "is_dict (JObj d) = True"
| "is_dict v = False"

fun is_str :: "json \<Rightarrow> bool" where
  "is_str (JStr s) = True"
| "is_str v = False"

fun dict_of :: "json \<Rightarrow> jdict" where
  "dict_of (JObj d) = d"
| "dict_of v = []"

fun str_of :: "json \<Rightarrow> string" where
  "str_of (JStr s) = s"
| "str_of v = []"

text \<open>
  The socket. \<open>incoming\<close> is what the server will deliver, in order, each entry with its
  arrival time; \<open>outgoing\<close> is the log of frames sent, each with the time of sending. A
  frame received is \<open>None\<close> or a text, and \<open>json.loads\<close> of the text either fails or
  gives a value. \<open>ws_recv w now timeout\<close> blocks until the next entry has arrived or the
  timeout has passed and returns the clock at that moment.
\<close>

datatype frame = RecvNone | RecvText "json option"

datatype arrival = Frame frame | ConnectionClosed

record websocket =
  incoming :: "(rat \<times> arrival) list"
  outgoing :: "(rat \<times> json) list"
  connected :: bool
  close_raises :: bool

datatype recv_result = RecvTimeout | RecvClosed | Received frame

definition ws_recv :: "websocket \<Rightarrow> rat \<Rightarrow> rat \<Rightarrow> recv_result \<times> websocket \<times> rat" where
  "ws_recv w now timeout =
     (if \<not> connected w then (RecvClosed, w, now)
      else
        (case incoming w of
           [] \<Rightarrow> (RecvTimeout, w, now + timeout)
         | (arrives, a) # rest \<Rightarrow>
             (if arrives \<le> now + timeout then
                (case a of
                   Frame f \<Rightarrow> (Received f, w\<lparr>incoming := rest\<rparr>, max now arrives)
                 | ConnectionClosed \<Rightarrow>
                     (RecvClosed, w\<lparr>incoming := rest, connected := False\<rparr>, max now arrives))
              else (RecvTimeout, w, now + timeout))))"

definition ws_close :: "websocket \<Rightarrow> error + websocket" where
  "ws_close w =
     (if close_raises w then Inl (Raise (OtherException ''OSError'') [Text ''close failed''])
      else Inr (w\<lparr>connected := False\<rparr>))"

text \<open>
  The attributes of a \<open>GatewayClient\<close>, together with the clock \<open>time.monotonic()\<close> and
  the allocator of the process. There is one thread, so the state is passed along.
\<close>

record session =
  name :: string
  url :: string
  token :: string
  ws :: "websocket option"
  heartbeat_interval_s :: rat
  last_heartbeat_at :: rat
  backlog :: "msg list"
  monotonic :: rat
  next_object :: nat

definition GatewayClient_init :: "string \<Rightarrow> string \<Rightarrow> string \<Rightarrow> rat \<Rightarrow> nat \<Rightarrow> session" where
  "GatewayClient_init n u tok now fresh =
     \<lparr>name = n, url = u, token = tok, ws = None, heartbeat_interval_s = 165 / 4,
      last_heartbeat_at = 0, backlog = [], monotonic = now, next_object = fresh\<rparr>"

text \<open>\<open>send\<close>, \<open>_maybe_heartbeat\<close> and \<open>_poll_once\<close> (lines 441-444, 495-504, 472-493).\<close>

definition not_connected :: "session \<Rightarrow> error" where
  "not_connected s = Raise RuntimeError [Text (name s @ '': websocket not connected'')]"

definition send :: "json \<Rightarrow> session \<Rightarrow> (error + unit) \<times> session" where
  "send payload s =
     (case ws s of
        None \<Rightarrow> (Inl (not_connected s), s)
      | Some w \<Rightarrow>
          (if connected w then
             (Inr (), s\<lparr>ws := Some (w\<lparr>outgoing := outgoing w @ [(monotonic s, payload)]\<rparr>)\<rparr>)
           else
             (Inl (Raise (OtherException ''WebSocketConnectionClosedException'')
                     [Text ''socket is already closed.'']), s)))"

definition heartbeat_frame :: json where
  "heartbeat_frame = JObj [(''op'', JInt 1), (''d'', JNull)]"

definition maybe_heartbeat :: "session \<Rightarrow> session" where
  "maybe_heartbeat s =
     (case ws s of
        None \<Rightarrow> s
      | Some w \<Rightarrow>
          (let now = monotonic s in
           if now - last_heartbeat_at s \<ge> heartbeat_interval_s s * (9 / 10) then
             (case send heartbeat_frame s of
                (Inl exc, s1) \<Rightarrow> s1
              | (Inr u, s1) \<Rightarrow> s1\<lparr>last_heartbeat_at := now\<rparr>)
           else s))"

definition poll_once :: "rat \<Rightarrow> session \<Rightarrow> (error + msg option) \<times> session" where
  "poll_once timeout_s s =
     (case ws s of
        None \<Rightarrow> (Inl (not_connected s), s)
      | Some w0 \<Rightarrow>
          (let s1 = maybe_heartbeat s in
           case ws s1 of
             None \<Rightarrow> (Inl (Raise (OtherException ''AttributeError'')
                              [Text ''NoneType object has no attribute settimeout'']), s1)
           | Some w \<Rightarrow>
               (case ws_recv w (monotonic s1) timeout_s of
                  (r, w1, t1) \<Rightarrow>
                    (let s2 = s1\<lparr>ws := Some w1, monotonic := t1\<rparr> in
                     case r of
                       RecvTimeout \<Rightarrow> (Inr None, s2)
                     | RecvClosed \<Rightarrow>
                         (Inl (Raise RuntimeError
                                 [Text (name s @ '': websocket closed unexpectedly'')]), s2)
                     | Received RecvNone \<Rightarrow> (Inr None, s2)
                     | Received (RecvText None) \<Rightarrow> (Inr None, s2)
                     | Received (RecvText (Some payload)) \<Rightarrow>
                         (if is_dict payload then
                            (Inr (Some \<lparr>obj_id = next_object s2, content = dict_of payload\<rparr>),
                             s2\<lparr>next_object := Suc (next_object s2)\<rparr>)
                          else (Inr None, s2))))))"

text \<open>
  \<open>_find_in_backlog\<close> (lines 506-517): the first item, oldest first, that is a dispatch of
  the type asked for with a dict payload the predicate accepts, is popped.
\<close>

type_synonym predicate = "(jdict \<Rightarrow> bool) option"

definition accepts :: "predicate \<Rightarrow> jdict \<Rightarrow> bool" where
  "accepts p data = (case p of None \<Rightarrow> True | Some f \<Rightarrow> f data)"

fun scan_backlog :: "string \<Rightarrow> predicate \<Rightarrow> msg list \<Rightarrow> (msg \<times> msg list) option" where
  "scan_backlog event_type p [] = None"
| "scan_backlog event_type p (item # rest) =
     (if \<not> py_eq_int (dget (content item) ''op'') 0
         \<or> \<not> py_eq_str (dget (content item) ''t'') event_type
      then map_option (\<lambda>(m, r). (m, item # r)) (scan_backlog event_type p rest)
      else
        (let data = dget (content item) ''d'' in
         if is_dict data \<and> accepts p (dict_of data) then Some (item, rest)
         else map_option (\<lambda>(m, r). (m, item # r)) (scan_backlog event_type p rest)))"

definition find_in_backlog :: "string \<Rightarrow> predicate \<Rightarrow> session \<Rightarrow> msg option \<times> session" where
  "find_in_backlog event_type p s =
     (case scan_backlog event_type p (backlog s) of
        None \<Rightarrow> (None, s)
      | Some (m, remaining) \<Rightarrow> (Some m, s\<lparr>backlog := remaining\<rparr>))"

text \<open>
  Progress of one poll: it takes an entry from the socket, or it waits for the whole
  timeout. This is what bounds the receive loops.
\<close>

definition pending_count :: "session \<Rightarrow> nat" where
  "pending_count s = (case ws s of None \<Rightarrow> 0 | Some w \<Rightarrow> length (incoming w))"

definition last15 :: "string list \<Rightarrow> string list" where
  "last15 seen = (if length seen > 15 then drop (length seen - 15) seen else seen)"

lemma ws_recv_progress:
  "ws_recv w now timeout = (r, w1, t1) \<Longrightarrow>
     length (incoming w1) < length (incoming w) \<or>
     (incoming w1 = incoming w \<and> (r = RecvClosed \<or> t1 = now + timeout))"
  by (auto simp: ws_recv_def split: if_splits list.splits arrival.splits)

lemma maybe_heartbeat_ws:
  "ws s = Some w0 \<Longrightarrow>
     \<exists>w. ws (maybe_heartbeat s) = Some w \<and> incoming w = incoming w0 \<and>
         connected w = connected w0 \<and> close_raises w = close_raises w0"
  by (cases "connected w0") (simp_all add: maybe_heartbeat_def send_def Let_def)

lemma maybe_heartbeat_pending [simp]: "pending_count (maybe_heartbeat s) = pending_count s"
  by (auto simp: maybe_heartbeat_def send_def pending_count_def Let_def
      split: option.splits if_splits)

lemma maybe_heartbeat_monotonic [simp]: "monotonic (maybe_heartbeat s) = monotonic s"
  by (auto simp: maybe_heartbeat_def send_def Let_def split: option.splits if_splits)

lemma poll_once_progress:
  assumes "poll_once timeout_s s = (Inr r, s1)"
  shows "pending_count s1 < pending_count s \<or>
         (pending_count s1 = pending_count s \<and> monotonic s1 = monotonic s + timeout_s)"
proof (cases "ws s")
  case None
  with assms show ?thesis by (simp add: poll_once_def)
next
  case (Some w0)
  obtain w where w: "ws (maybe_heartbeat s) = Some w"
    using maybe_heartbeat_ws [OF Some] by blast
  obtain rr w1 t1 where rv: "ws_recv w (monotonic s) timeout_s = (rr, w1, t1)"
    by (cases "ws_recv w (monotonic s) timeout_s") auto
  have pc: "pending_count s = length (incoming w)"
    using w maybe_heartbeat_pending [of s] by (simp add: pending_count_def)
  from assms Some w rv have closed: "rr \<noteq> RecvClosed"
    by (auto simp: poll_once_def Let_def)
  from assms Some w rv have s1: "pending_count s1 = length (incoming w1) \<and> monotonic s1 = t1"
    by (auto simp: poll_once_def Let_def pending_count_def
        split: recv_result.splits frame.splits option.splits if_splits)
  from ws_recv_progress [OF rv] closed s1 pc show ?thesis by auto
qed

text \<open>
  \<open>wait_dispatch\<close> (lines 519-548). One iteration of its receive loop either leaves the
  function (a \<open>return\<close> or an exception) or goes round again with the list \<open>seen\<close> and
  the session.
\<close>

datatype ('r, 'c) iteration = Return 'r | Continue 'c

definition wait_dispatch_step ::
  "string \<Rightarrow> predicate \<Rightarrow> string list \<Rightarrow> session \<Rightarrow>
     ((error + msg) \<times> session, string list \<times> session) iteration" where
  "wait_dispatch_step event_type p seen s =
     (case poll_once (1 / 2) s of
        (Inl exc, s1) \<Rightarrow> Return (Inl exc, s1)
      | (Inr None, s1) \<Rightarrow> Continue (seen, s1)
      | (Inr (Some m), s1) \<Rightarrow>
          (if py_eq_int (dget (content m) ''op'') 0 \<and> is_str (dget (content m) ''t'') then
             (let t = str_of (dget (content m) ''t'');
                  seen1 = last15 (seen @ [t]);
                  data = dget (content m) ''d''
              in if t = event_type \<and> is_dict data \<and> accepts p (dict_of data)
                 then Return (Inr m, s1)
                 else Continue (seen1, s1\<lparr>backlog := backlog s1 @ [m]\<rparr>))
           else Continue (seen, s1)))"

lemma wait_dispatch_step_progress:
  assumes "wait_dispatch_step event_type p seen s = Continue (seen1, s1)"
  shows "pending_count s1 < pending_count s \<or>
         (pending_count s1 = pending_count s \<and> monotonic s1 = monotonic s + 1 / 2)"
proof -
  obtain r s0 where po: "poll_once (1 / 2) s = (r, s0)"
    by (cases "poll_once (1 / 2) s") auto
  with assms obtain v where r: "r = Inr v"
    by (cases r) (auto simp: wait_dispatch_step_def)
  from assms po r have "pending_count s1 = pending_count s0 \<and> monotonic s1 = monotonic s0"
    by (auto simp: wait_dispatch_step_def Let_def pending_count_def
        split: option.splits if_splits)
  with poll_once_progress [OF po [unfolded r]] show ?thesis by simp
qed

function wait_dispatch_loop ::
  "string \<Rightarrow> predicate \<Rightarrow> rat \<Rightarrow> string list \<Rightarrow> session \<Rightarrow> (error + msg) \<times> session" where
  "wait_dispatch_loop event_type p deadline seen s =
     (if monotonic s < deadline then
        (case wait_dispatch_step event_type p seen s of
           Return r \<Rightarrow> r
         | Continue (seen1, s1) \<Rightarrow> wait_dispatch_loop event_type p deadline seen1 s1)
      else
        (Inl (Raise TimeoutError
                [Text (name s @ '': timed out waiting for '' @ event_type @ ''; recently seen: ''),
                 Repr (JArr (map JStr seen))]), s))"
  by pat_completeness auto
termination
proof (relation "inv_image (less_than <*lex*> less_than)
    (\<lambda>(event_type, p, deadline, seen, s).
       (pending_count s, nat \<lceil>(deadline - monotonic s) / (1 / 2)\<rceil>))")
  show "wf (inv_image (less_than <*lex*> less_than)
    (\<lambda>(event_type, p, deadline, seen, s).
       (pending_count s, nat \<lceil>(deadline - monotonic s) / (1 / 2)\<rceil>)))"
    by (intro wf_inv_image wf_lex_prod wf_less_than)
next
  fix event_type :: string and p :: predicate and deadline :: rat and seen :: "string list"
    and s :: session and x2 :: "string list \<times> session" and seen1 :: "string list" and s1 :: session
  assume lt: "monotonic s < deadline"
    and st: "wait_dispatch_step event_type p seen s = Continue x2"
    and x2: "(seen1, s1) = x2"
  from st x2 have "wait_dispatch_step event_type p seen s = Continue (seen1, s1)" by simp
  from wait_dispatch_step_progress [OF this]
  show "((event_type, p, deadline, seen1, s1), (event_type, p, deadline, seen, s))
      \<in> inv_image (less_than <*lex*> less_than)
    (\<lambda>(event_type, p, deadline, seen, s).
       (pending_count s, nat \<lceil>(deadline - monotonic s) / (1 / 2)\<rceil>))"
    using remaining_steps_decrease [OF lt, of "1 / 2"] by auto
qed

declare wait_dispatch_loop.simps [simp del]

definition wait_dispatch ::
  "string \<Rightarrow> predicate \<Rightarrow> rat \<Rightarrow> session \<Rightarrow> (error + msg) \<times> session" where
  "wait_dispatch event_type p timeout_s s =
     (case find_in_backlog event_type p s of
        (Some cached, s1) \<Rightarrow> (Inr cached, s1)
      | (None, s1) \<Rightarrow> wait_dispatch_loop event_type p (monotonic s1 + timeout_s) [] s1)"

text \<open>\<open>close\<close> (lines 433-439): \<open>try: self.ws.close() except Exception: pass\<close>, then
  \<open>self.ws = None\<close>.\<close>

definition close :: "session \<Rightarrow> (error + unit) \<times> session" where
  "close s =
     (case ws s of
        None \<Rightarrow> (Inr (), s)
      | Some w \<Rightarrow>
          (case ws_close w of
             Inl exc \<Rightarrow> (Inr (), s\<lparr>ws := None\<rparr>)
           | Inr w1 \<Rightarrow> (Inr (), s\<lparr>ws := None\<rparr>)))"


section \<open>Verification: the backlog of the gateway client\<close>

text \<open>
  The condition under which \<open>_find_in_backlog\<close> pops an item and the receive loop
  returns a message: a dispatch (\<open>op == 0\<close>) of the type asked for, whose payload is a
  dict that the predicate accepts.
\<close>

definition dispatch_matches :: "string \<Rightarrow> predicate \<Rightarrow> msg \<Rightarrow> bool" where
  "dispatch_matches event_type p m =
     (py_eq_int (dget (content m) ''op'') 0 \<and> py_eq_str (dget (content m) ''t'') event_type \<and>
      is_dict (dget (content m) ''d'') \<and> accepts p (dict_of (dget (content m) ''d'')))"

lemma scan_backlog_Some:
  "scan_backlog event_type p xs = Some (m, r) \<Longrightarrow>
     \<exists>pre post. xs = pre @ m # post \<and> r = pre @ post \<and> dispatch_matches event_type p m \<and>
       (\<forall>x \<in> set pre. \<not> dispatch_matches event_type p x)"
proof (induction xs arbitrary: r)
  case Nil
  then show ?case by simp
next
  case (Cons item rest)
  show ?case
  proof (cases "dispatch_matches event_type p item")
    case True
    with Cons.prems have "m = item \<and> r = rest"
      by (auto simp: dispatch_matches_def Let_def)
    with True have "item # rest = [] @ m # rest \<and> r = [] @ rest \<and> dispatch_matches event_type p m \<and>
       (\<forall>x \<in> set []. \<not> dispatch_matches event_type p x)" by simp
    then show ?thesis by blast
  next
    case False
    with Cons.prems obtain r0 where r0: "scan_backlog event_type p rest = Some (m, r0)" "r = item # r0"
      by (auto simp: dispatch_matches_def Let_def split: if_splits)
    from Cons.IH [OF r0(1)] obtain pre post where
      pp: "rest = pre @ m # post" "r0 = pre @ post" "dispatch_matches event_type p m"
          "\<forall>x \<in> set pre. \<not> dispatch_matches event_type p x" by blast
    with False r0 have "item # rest = (item # pre) @ m # post \<and> r = (item # pre) @ post \<and>
        dispatch_matches event_type p m \<and>
        (\<forall>x \<in> set (item # pre). \<not> dispatch_matches event_type p x)" by simp
    then show ?thesis by blast
  qed
qed


lemma scan_backlog_None:
  "(scan_backlog event_type p xs = None) = (\<forall>x \<in> set xs. \<not> dispatch_matches event_type p x)"
  by (induction xs) (auto simp: dispatch_matches_def Let_def)

text \<open>A poll leaves the backlog alone; a message it returns is a new object.\<close>

lemma maybe_heartbeat_backlog [simp]: "backlog (maybe_heartbeat s) = backlog s"
  by (auto simp: maybe_heartbeat_def send_def Let_def split: option.splits if_splits)

lemma maybe_heartbeat_next_object [simp]: "next_object (maybe_heartbeat s) = next_object s"
  by (auto simp: maybe_heartbeat_def send_def Let_def split: option.splits if_splits)

lemma maybe_heartbeat_name [simp]: "name (maybe_heartbeat s) = name s"
  by (auto simp: maybe_heartbeat_def send_def Let_def split: option.splits if_splits)

lemma poll_once_backlog: "backlog (snd (poll_once timeout_s s)) = backlog s"
  by (auto simp: poll_once_def Let_def
      split: option.splits prod.splits recv_result.splits frame.splits)

lemma poll_once_message:
  "poll_once timeout_s s = (Inr (Some m), s1) \<Longrightarrow>
     obj_id m = next_object s \<and> next_object s1 = Suc (next_object s)"
  by (auto simp: poll_once_def Let_def
      split: option.splits prod.splits recv_result.splits frame.splits if_splits)

lemma poll_once_no_message:
  "poll_once timeout_s s = (r, s1) \<Longrightarrow> \<forall>m. r \<noteq> Inr (Some m) \<Longrightarrow>
     next_object s1 = next_object s"
  by (auto simp: poll_once_def Let_def
      split: option.splits prod.splits recv_result.splits frame.splits if_splits)


text \<open>What one iteration of the receive loop does to the backlog and the allocator.\<close>

lemma is_str_py_eq_str: "is_str v \<Longrightarrow> py_eq_str v t = (str_of v = t)"
  by (cases v) auto

lemma wait_dispatch_step_Return_Inr:
  assumes "wait_dispatch_step event_type p seen s = Return (Inr m, s1)"
  shows "backlog s1 = backlog s \<and> obj_id m = next_object s \<and>
         next_object s1 = Suc (next_object s) \<and> dispatch_matches event_type p m"
proof -
  obtain r s0 where po: "poll_once (1 / 2) s = (r, s0)"
    by (cases "poll_once (1 / 2) s") auto
  from assms po have r: "r = Inr (Some m)" and s0: "s0 = s1"
    and c: "py_eq_int (dget (content m) ''op'') 0" "is_str (dget (content m) ''t'')"
      "str_of (dget (content m) ''t'') = event_type" "is_dict (dget (content m) ''d'')"
      "accepts p (dict_of (dget (content m) ''d''))"
    by (auto simp: wait_dispatch_step_def Let_def split: sum.splits option.splits if_splits)
  from poll_once_message [OF po [unfolded r]] poll_once_backlog [of "1 / 2" s] po s0 c
  show ?thesis by (simp add: dispatch_matches_def is_str_py_eq_str)
qed

lemma wait_dispatch_step_Return_Inl:
  assumes "wait_dispatch_step event_type p seen s = Return (Inl exc, s1)"
  shows "backlog s1 = backlog s \<and> next_object s1 = next_object s"
proof -
  obtain r s0 where po: "poll_once (1 / 2) s = (r, s0)"
    by (cases "poll_once (1 / 2) s") auto
  from assms po have r: "r = Inl exc" and s0: "s0 = s1"
    by (auto simp: wait_dispatch_step_def Let_def split: sum.splits option.splits if_splits)
  from r have "\<forall>m. r \<noteq> Inr (Some m)" by simp
  from poll_once_no_message [OF po this] poll_once_backlog [of "1 / 2" s] po s0
  show ?thesis by simp
qed

lemma wait_dispatch_step_Continue:
  assumes "wait_dispatch_step event_type p seen s = Continue (seen1, s1)"
  shows "(backlog s1 = backlog s \<and> next_object s \<le> next_object s1) \<or>
         (\<exists>m. backlog s1 = backlog s @ [m] \<and> obj_id m = next_object s \<and>
              next_object s1 = Suc (next_object s))"
proof -
  obtain r s0 where po: "poll_once (1 / 2) s = (r, s0)"
    by (cases "poll_once (1 / 2) s") auto
  have b0: "backlog s0 = backlog s" using poll_once_backlog [of "1 / 2" s] po by simp
  show ?thesis
  proof (cases "\<exists>m. r = Inr (Some m)")
    case True
    then obtain m where r: "r = Inr (Some m)" by blast
    from poll_once_message [OF po [unfolded r]]
    have m: "obj_id m = next_object s" "next_object s0 = Suc (next_object s)" by simp_all
    from assms po r have "s1 = s0 \<or> s1 = s0\<lparr>backlog := backlog s0 @ [m]\<rparr>"
      by (auto simp: wait_dispatch_step_def Let_def split: if_splits)
    with m b0 show ?thesis by auto
  next
    case False
    then have "\<forall>m. r \<noteq> Inr (Some m)" by simp
    from poll_once_no_message [OF po this] have n: "next_object s0 = next_object s" .
    from assms po False have "s1 = s0"
      by (auto simp: wait_dispatch_step_def Let_def split: sum.splits option.splits if_splits)
    with n b0 show ?thesis by simp
  qed
qed

text \<open>The receive loop, unfolded once; what it returns matches; it only adds to the backlog.\<close>

lemma wait_dispatch_loop_unfold_Return:
  "monotonic s < deadline \<Longrightarrow> wait_dispatch_step event_type p seen s = Return r \<Longrightarrow>
     wait_dispatch_loop event_type p deadline seen s = r"
  by (subst wait_dispatch_loop.simps) simp

lemma wait_dispatch_loop_unfold_Continue:
  "monotonic s < deadline \<Longrightarrow> wait_dispatch_step event_type p seen s = Continue (seen1, s1) \<Longrightarrow>
     wait_dispatch_loop event_type p deadline seen s =
     wait_dispatch_loop event_type p deadline seen1 s1"
  by (subst wait_dispatch_loop.simps) simp

lemma wait_dispatch_loop_unfold_timeout:
  "\<not> monotonic s < deadline \<Longrightarrow>
     wait_dispatch_loop event_type p deadline seen s =
       (Inl (Raise TimeoutError
               [Text (name s @ '': timed out waiting for '' @ event_type @ ''; recently seen: ''),
                Repr (JArr (map JStr seen))]), s)"
  by (subst wait_dispatch_loop.simps) simp

lemma wait_dispatch_loop_returns_match:
  "wait_dispatch_loop event_type p deadline seen s = (Inr m, s2) \<Longrightarrow>
     dispatch_matches event_type p m"
proof (induction event_type p deadline seen s rule: wait_dispatch_loop.induct)
  case (1 event_type p deadline seen s)
  show ?case
  proof (cases "monotonic s < deadline")
    case False
    with "1.prems" show ?thesis by (simp add: wait_dispatch_loop_unfold_timeout)
  next
    case True
    show ?thesis
    proof (cases "wait_dispatch_step event_type p seen s")
      case (Return r)
      with True "1.prems" have "r = (Inr m, s2)"
        by (simp add: wait_dispatch_loop_unfold_Return)
      with Return wait_dispatch_step_Return_Inr show ?thesis by blast
    next
      case (Continue c)
      obtain seen1 s1 where c: "c = (seen1, s1)" by (cases c) auto
      from True Continue c "1.prems"
      have "wait_dispatch_loop event_type p deadline seen1 s1 = (Inr m, s2)"
        by (simp add: wait_dispatch_loop_unfold_Continue)
      from "1.IH" [OF True Continue c [symmetric] this] show ?thesis .
    qed
  qed
qed

lemma wait_dispatch_loop_keeps_backlog:
  "set (backlog s) \<subseteq> set (backlog (snd (wait_dispatch_loop event_type p deadline seen s)))"
proof (induction event_type p deadline seen s rule: wait_dispatch_loop.induct)
  case (1 event_type p deadline seen s)
  show ?case
  proof (cases "monotonic s < deadline")
    case False
    then show ?thesis by (simp add: wait_dispatch_loop_unfold_timeout)
  next
    case True
    show ?thesis
    proof (cases "wait_dispatch_step event_type p seen s")
      case (Return r)
      obtain res s1 where r: "r = (res, s1)" by (cases r) auto
      have "backlog s1 = backlog s"
        using Return r wait_dispatch_step_Return_Inr wait_dispatch_step_Return_Inl
        by (cases res) blast+
      with True Return r show ?thesis by (simp add: wait_dispatch_loop_unfold_Return)
    next
      case (Continue c)
      obtain seen1 s1 where c: "c = (seen1, s1)" by (cases c) auto
      from wait_dispatch_step_Continue [OF Continue [unfolded c]]
      have "set (backlog s) \<subseteq> set (backlog s1)" by auto
      with "1.IH" [OF True Continue c [symmetric]] True Continue c
      show ?thesis by (simp add: wait_dispatch_loop_unfold_Continue)
    qed
  qed
qed

text \<open>
  A caller's run of \<open>wait_dispatch\<close> calls on one session: before each call the clock
  advances by the time the caller spent elsewhere. The run goes on after a call that
  raised, as a caller that catches the exception would; its results are listed in order.
\<close>

type_synonym await_call = "rat \<times> string \<times> predicate \<times> rat"

fun run_awaits :: "await_call list \<Rightarrow> session \<Rightarrow> (error + msg) list \<times> session" where
  "run_awaits [] s = ([], s)"
| "run_awaits ((idle, event_type, p, timeout_s) # calls) s =
     (case wait_dispatch event_type p timeout_s (s\<lparr>monotonic := monotonic s + max 0 idle\<rparr>) of
        (r, s1) \<Rightarrow> (case run_awaits calls s1 of (rs, s2) \<Rightarrow> (r # rs, s2)))"

text \<open>An item that does not match stays in the backlog through \<open>wait_dispatch\<close>.\<close>

lemma non_dict_no_match:
  "\<not> is_dict (dget (content x) ''d'') \<Longrightarrow> \<not> dispatch_matches event_type p x"
  by (simp add: dispatch_matches_def)

lemma find_in_backlog_keeps:
  "x \<in> set (backlog s) \<Longrightarrow> \<not> dispatch_matches event_type p x \<Longrightarrow>
     x \<in> set (backlog (snd (find_in_backlog event_type p s)))"
proof (cases "scan_backlog event_type p (backlog s)")
  case None
  assume "x \<in> set (backlog s)"
  with None show ?thesis by (simp add: find_in_backlog_def)
next
  case (Some a)
  assume x: "x \<in> set (backlog s)" and nm: "\<not> dispatch_matches event_type p x"
  obtain m r where a: "a = (m, r)" by (cases a) auto
  from scan_backlog_Some [OF Some [unfolded a]] obtain pre post where
    pp: "backlog s = pre @ m # post" "r = pre @ post" "dispatch_matches event_type p m" by blast
  with x nm have "x \<in> set r" by auto
  with Some a show ?thesis by (simp add: find_in_backlog_def)
qed

lemma find_in_backlog_Some_match:
  "find_in_backlog event_type p s = (Some m, s1) \<Longrightarrow> dispatch_matches event_type p m"
  by (auto simp: find_in_backlog_def split: option.splits dest: scan_backlog_Some)

lemma wait_dispatch_returns_match:
  "wait_dispatch event_type p timeout_s s = (Inr m, s2) \<Longrightarrow> dispatch_matches event_type p m"
proof -
  assume a: "wait_dispatch event_type p timeout_s s = (Inr m, s2)"
  obtain c s1 where f: "find_in_backlog event_type p s = (c, s1)"
    by (cases "find_in_backlog event_type p s") auto
  show ?thesis
  proof (cases c)
    case None
    with a f have "wait_dispatch_loop event_type p (monotonic s1 + timeout_s) [] s1 = (Inr m, s2)"
      by (simp add: wait_dispatch_def)
    then show ?thesis by (rule wait_dispatch_loop_returns_match)
  next
    case (Some cached)
    with a f have "cached = m" by (simp add: wait_dispatch_def)
    with f Some find_in_backlog_Some_match show ?thesis by blast
  qed
qed

lemma wait_dispatch_keeps:
  assumes "x \<in> set (backlog s)" and "\<not> dispatch_matches event_type p x"
  shows "x \<in> set (backlog (snd (wait_dispatch event_type p timeout_s s)))"
proof -
  obtain c s1 where f: "find_in_backlog event_type p s = (c, s1)"
    by (cases "find_in_backlog event_type p s") auto
  from find_in_backlog_keeps [OF assms] f have x1: "x \<in> set (backlog s1)" by simp
  show ?thesis
  proof (cases c)
    case None
    with f have "wait_dispatch event_type p timeout_s s =
        wait_dispatch_loop event_type p (monotonic s1 + timeout_s) [] s1"
      by (simp add: wait_dispatch_def)
    with x1 wait_dispatch_loop_keeps_backlog [of s1 event_type p "monotonic s1 + timeout_s" "[]"]
    show ?thesis by auto
  next
    case (Some cached)
    with f x1 show ?thesis by (simp add: wait_dispatch_def)
  qed
qed

lemma run_awaits_keeps_non_dict:
  "x \<in> set (backlog s) \<Longrightarrow> \<not> is_dict (dget (content x) ''d'') \<Longrightarrow>
     x \<in> set (backlog (snd (run_awaits calls s))) \<and> Inr x \<notin> set (fst (run_awaits calls s))"
proof (induction calls arbitrary: s)
  case Nil
  then show ?case by simp
next
  case (Cons c calls)
  obtain idle event_type p timeout_s where c: "c = (idle, event_type, p, timeout_s)"
    by (cases c) auto
  let ?s0 = "s\<lparr>monotonic := monotonic s + max 0 idle\<rparr>"
  obtain r s1 where w: "wait_dispatch event_type p timeout_s ?s0 = (r, s1)"
    by (cases "wait_dispatch event_type p timeout_s ?s0") auto
  obtain rs s2 where rr: "run_awaits calls s1 = (rs, s2)"
    by (cases "run_awaits calls s1") auto
  have nm: "\<not> dispatch_matches event_type p x" using Cons.prems(2) by (rule non_dict_no_match)
  have "x \<in> set (backlog ?s0)" using Cons.prems(1) by simp
  from wait_dispatch_keeps [OF this nm, of timeout_s] w have x1: "x \<in> set (backlog s1)" by simp
  have "r \<noteq> Inr x" using w wait_dispatch_returns_match nm by blast
  with Cons.IH [OF x1 Cons.prems(2)] c w rr show ?case by simp
qed


lemma non_dict_arrival_appended:
  assumes nd: "\<not> is_dict (dget (content x) ''d'')"
    and po: "poll_once (1 / 2) s = (Inr (Some x), s1)"
    and op: "py_eq_int (dget (content x) ''op'') 0"
    and t: "py_eq_str (dget (content x) ''t'') event_type"
  shows "wait_dispatch_step event_type p seen s =
           Continue (last15 (seen @ [event_type]), s1\<lparr>backlog := backlog s1 @ [x]\<rparr>)"
proof -
  from t have "is_str (dget (content x) ''t'') \<and> str_of (dget (content x) ''t'') = event_type"
    by (cases "dget (content x) ''t''") auto
  with nd po op show ?thesis by (simp add: wait_dispatch_step_def Let_def)
qed

lemma non_dict_arrival_retained_loop:
  assumes nd: "\<not> is_dict (dget (content x) ''d'')"
    and lt: "monotonic s < deadline"
    and po: "poll_once (1 / 2) s = (Inr (Some x), s1)"
    and op: "py_eq_int (dget (content x) ''op'') 0"
    and t: "py_eq_str (dget (content x) ''t'') event_type"
  shows "x \<in> set (backlog (snd (wait_dispatch_loop event_type p deadline seen s)))
       \<and> fst (wait_dispatch_loop event_type p deadline seen s) \<noteq> Inr x"
proof -
  let ?s2 = "s1\<lparr>backlog := backlog s1 @ [x]\<rparr>"
  let ?seen1 = "last15 (seen @ [event_type])"
  have st: "wait_dispatch_step event_type p seen s = Continue (?seen1, ?s2)"
    using nd po op t by (rule non_dict_arrival_appended)
  have eq: "wait_dispatch_loop event_type p deadline seen s =
      wait_dispatch_loop event_type p deadline ?seen1 ?s2"
    using lt st by (rule wait_dispatch_loop_unfold_Continue)
  have "x \<in> set (backlog ?s2)" by simp
  with wait_dispatch_loop_keeps_backlog [of ?s2 event_type p deadline ?seen1]
  have a: "x \<in> set (backlog (snd (wait_dispatch_loop event_type p deadline seen s)))"
    unfolding eq by blast
  have nm: "\<not> dispatch_matches event_type p x" using nd by (rule non_dict_no_match)
  have b: "fst (wait_dispatch_loop event_type p deadline seen s) \<noteq> Inr x"
  proof
    assume "fst (wait_dispatch_loop event_type p deadline seen s) = Inr x"
    then have "wait_dispatch_loop event_type p deadline seen s =
        (Inr x, snd (wait_dispatch_loop event_type p deadline seen s))"
      by (cases "wait_dispatch_loop event_type p deadline seen s") simp
    from wait_dispatch_loop_returns_match [OF this] nm show False by simp
  qed
  from a b show ?thesis ..
qed

lemma non_dict_arrival_retained:
  assumes nd: "\<not> is_dict (dget (content x) ''d'')"
    and none: "\<forall>y \<in> set (backlog s). \<not> dispatch_matches event_type p y"
    and pos: "0 < timeout_s"
    and po: "poll_once (1 / 2) s = (Inr (Some x), s1)"
    and op: "py_eq_int (dget (content x) ''op'') 0"
    and t: "py_eq_str (dget (content x) ''t'') event_type"
  shows "x \<in> set (backlog (snd (wait_dispatch event_type p timeout_s s)))"
proof -
  from none have "scan_backlog event_type p (backlog s) = None" by (simp add: scan_backlog_None)
  then have "find_in_backlog event_type p s = (None, s)" by (simp add: find_in_backlog_def)
  then have eq: "wait_dispatch event_type p timeout_s s =
      wait_dispatch_loop event_type p (monotonic s + timeout_s) [] s"
    by (simp add: wait_dispatch_def)
  have "monotonic s < monotonic s + timeout_s" using pos by simp
  from non_dict_arrival_retained_loop [OF nd this po op t] show ?thesis unfolding eq by blast
qed

text \<open>
  Claim C10. A message whose payload \<open>d\<close> is not a dict is never returned by
  \<open>wait_dispatch\<close> and never popped by \<open>_find_in_backlog\<close>, for any event type and any
  predicate, \<open>None\<close> included. When it arrives as a dispatch of the awaited type, the
  receive loop appends it to the backlog and goes on waiting: whatever iteration of
  the loop reads it, and whatever arrives afterwards, the message is in the backlog when
  \<open>wait_dispatch\<close> ends, and \<open>wait_dispatch\<close> has not returned it. Once in the backlog it
  stays there through every later run of \<open>wait_dispatch\<close> calls, none of which returns
  it.
\<close>

theorem non_dict_payload_unmatchable:
  assumes "\<not> is_dict (dget (content x) ''d'')"
  shows "fst (wait_dispatch event_type p timeout_s s) \<noteq> Inr x
       \<and> fst (find_in_backlog event_type p s) \<noteq> Some x
       \<and> (poll_once (1 / 2) s = (Inr (Some x), s1) \<and> py_eq_int (dget (content x) ''op'') 0 \<and>
            py_eq_str (dget (content x) ''t'') event_type \<longrightarrow>
          wait_dispatch_step event_type p seen s =
            Continue (last15 (seen @ [event_type]), s1\<lparr>backlog := backlog s1 @ [x]\<rparr>))
       \<and> (monotonic s < deadline \<and> poll_once (1 / 2) s = (Inr (Some x), s1) \<and>
            py_eq_int (dget (content x) ''op'') 0 \<and>
            py_eq_str (dget (content x) ''t'') event_type \<longrightarrow>
          x \<in> set (backlog (snd (wait_dispatch_loop event_type p deadline seen s))) \<and>
          fst (wait_dispatch_loop event_type p deadline seen s) \<noteq> Inr x)
       \<and> ((\<forall>y \<in> set (backlog s). \<not> dispatch_matches event_type p y) \<and> 0 < timeout_s \<and>
            poll_once (1 / 2) s = (Inr (Some x), s1) \<and>
            py_eq_int (dget (content x) ''op'') 0 \<and>
            py_eq_str (dget (content x) ''t'') event_type \<longrightarrow>
          x \<in> set (backlog (snd (wait_dispatch event_type p timeout_s s))) \<and>
          x \<in> set (backlog (snd (run_awaits calls (snd (wait_dispatch event_type p timeout_s s))))) \<and>
          Inr x \<notin> set (fst (run_awaits calls (snd (wait_dispatch event_type p timeout_s s)))))
       \<and> (x \<in> set (backlog s) \<longrightarrow>
            x \<in> set (backlog (snd (find_in_backlog event_type p s))) \<and>
            x \<in> set (backlog (snd (wait_dispatch event_type p timeout_s s))) \<and>
            x \<in> set (backlog (snd (run_awaits calls s))) \<and>
            Inr x \<notin> set (fst (run_awaits calls s)))"
proof -
  have nm: "\<not> dispatch_matches event_type p x" using assms by (rule non_dict_no_match)
  have a: "fst (wait_dispatch event_type p timeout_s s) \<noteq> Inr x"
  proof
    assume "fst (wait_dispatch event_type p timeout_s s) = Inr x"
    then have "wait_dispatch event_type p timeout_s s =
        (Inr x, snd (wait_dispatch event_type p timeout_s s))"
      by (cases "wait_dispatch event_type p timeout_s s") simp
    from wait_dispatch_returns_match [OF this] nm show False by simp
  qed
  have b: "fst (find_in_backlog event_type p s) \<noteq> Some x"
  proof
    assume "fst (find_in_backlog event_type p s) = Some x"
    then have "find_in_backlog event_type p s = (Some x, snd (find_in_backlog event_type p s))"
      by (cases "find_in_backlog event_type p s") simp
    from find_in_backlog_Some_match [OF this] nm show False by simp
  qed
  have c: "poll_once (1 / 2) s = (Inr (Some x), s1) \<and> py_eq_int (dget (content x) ''op'') 0 \<and>
            py_eq_str (dget (content x) ''t'') event_type \<longrightarrow>
          wait_dispatch_step event_type p seen s =
            Continue (last15 (seen @ [event_type]), s1\<lparr>backlog := backlog s1 @ [x]\<rparr>)"
    using non_dict_arrival_appended [OF assms] by blast
  have d: "monotonic s < deadline \<and> poll_once (1 / 2) s = (Inr (Some x), s1) \<and>
            py_eq_int (dget (content x) ''op'') 0 \<and>
            py_eq_str (dget (content x) ''t'') event_type \<longrightarrow>
          x \<in> set (backlog (snd (wait_dispatch_loop event_type p deadline seen s))) \<and>
          fst (wait_dispatch_loop event_type p deadline seen s) \<noteq> Inr x"
    using non_dict_arrival_retained_loop [OF assms] by blast
  have e: "(\<forall>y \<in> set (backlog s). \<not> dispatch_matches event_type p y) \<and> 0 < timeout_s \<and>
            poll_once (1 / 2) s = (Inr (Some x), s1) \<and>
            py_eq_int (dget (content x) ''op'') 0 \<and>
            py_eq_str (dget (content x) ''t'') event_type \<longrightarrow>
          x \<in> set (backlog (snd (wait_dispatch event_type p timeout_s s))) \<and>
          x \<in> set (backlog (snd (run_awaits calls (snd (wait_dispatch event_type p timeout_s s))))) \<and>
          Inr x \<notin> set (fst (run_awaits calls (snd (wait_dispatch event_type p timeout_s s))))"
  proof (intro impI)
    assume h: "(\<forall>y \<in> set (backlog s). \<not> dispatch_matches event_type p y) \<and> 0 < timeout_s \<and>
            poll_once (1 / 2) s = (Inr (Some x), s1) \<and>
            py_eq_int (dget (content x) ''op'') 0 \<and>
            py_eq_str (dget (content x) ''t'') event_type"
    then have "x \<in> set (backlog (snd (wait_dispatch event_type p timeout_s s)))"
      using non_dict_arrival_retained [OF assms] by blast
    with run_awaits_keeps_non_dict [OF _ assms]
    show "x \<in> set (backlog (snd (wait_dispatch event_type p timeout_s s))) \<and>
          x \<in> set (backlog (snd (run_awaits calls (snd (wait_dispatch event_type p timeout_s s))))) \<and>
          Inr x \<notin> set (fst (run_awaits calls (snd (wait_dispatch event_type p timeout_s s))))"
      by blast
  qed
  have f: "x \<in> set (backlog s) \<longrightarrow>
            x \<in> set (backlog (snd (find_in_backlog event_type p s))) \<and>
            x \<in> set (backlog (snd (wait_dispatch event_type p timeout_s s))) \<and>
            x \<in> set (backlog (snd (run_awaits calls s))) \<and>
            Inr x \<notin> set (fst (run_awaits calls s))"
    using find_in_backlog_keeps [OF _ nm] wait_dispatch_keeps [OF _ nm]
      run_awaits_keeps_non_dict [OF _ assms] by blast
  from a b c d e f show ?thesis by blast
qed

text \<open>A \<open>READY\<close> dispatch with a null payload, in the backlog and on the wire.\<close>

definition bare_ready :: msg where
  "bare_ready = \<lparr>obj_id = 0, content = [(''op'', JInt 0), (''t'', JStr ''READY''), (''d'', JNull)]\<rparr>"

definition holding_bare_ready :: session where
  "holding_bare_ready =
     (GatewayClient_init ''guest1'' ''ws://127.0.0.1:18081/gateway'' ''token'' 0 1)\<lparr>backlog := [bare_ready]\<rparr>"

definition receiving_bare_ready :: session where
  "receiving_bare_ready =
     (GatewayClient_init ''guest1'' ''ws://127.0.0.1:18081/gateway'' ''token'' 0 0)
       \<lparr>ws := Some \<lparr>incoming = [(0, Frame (RecvText (Some (JObj (content bare_ready)))))],
                    outgoing = [], connected = True, close_raises = False\<rparr>\<rparr>"

theorem non_dict_payload_unmatchable_witness:
  "\<not> is_dict (dget (content bare_ready) ''d'')
   \<and> fst (wait_dispatch ''READY'' None 20 holding_bare_ready) \<noteq> Inr bare_ready
   \<and> bare_ready \<in> set (backlog holding_bare_ready)
   \<and> bare_ready \<in> set (backlog (snd (run_awaits [(0, ''READY'', None, 20)] holding_bare_ready)))
   \<and> Inr bare_ready \<notin> set (fst (run_awaits [(0, ''READY'', None, 20)] holding_bare_ready))
   \<and> backlog receiving_bare_ready = []
   \<and> fst (poll_once (1 / 2) receiving_bare_ready) = Inr (Some bare_ready)
   \<and> wait_dispatch_step ''READY'' None [] receiving_bare_ready =
       Continue ([''READY''],
         (snd (poll_once (1 / 2) receiving_bare_ready))
           \<lparr>backlog := backlog (snd (poll_once (1 / 2) receiving_bare_ready)) @ [bare_ready]\<rparr>)
   \<and> fst (wait_dispatch ''READY'' None 20 receiving_bare_ready) \<noteq> Inr bare_ready
   \<and> bare_ready \<in> set (backlog (snd (wait_dispatch ''READY'' None 20 receiving_bare_ready)))
   \<and> bare_ready \<in> set (backlog (snd (run_awaits [(0, ''READY'', None, 20)]
        (snd (wait_dispatch ''READY'' None 20 receiving_bare_ready)))))
   \<and> Inr bare_ready \<notin> set (fst (run_awaits [(0, ''READY'', None, 20)]
        (snd (wait_dispatch ''READY'' None 20 receiving_bare_ready))))"
proof -
  have h: "\<not> is_dict (dget (content bare_ready) ''d'')"
    by (simp add: bare_ready_def dget_def)
  have po: "fst (poll_once (1 / 2) receiving_bare_ready) = Inr (Some bare_ready)"
    by (simp add: poll_once_def receiving_bare_ready_def GatewayClient_init_def
        maybe_heartbeat_def ws_recv_def bare_ready_def Let_def)
  then have po': "poll_once (1 / 2) receiving_bare_ready =
      (Inr (Some bare_ready), snd (poll_once (1 / 2) receiving_bare_ready))"
    by (cases "poll_once (1 / 2) receiving_bare_ready") simp
  have c: "py_eq_int (dget (content bare_ready) ''op'') 0 \<and>
           py_eq_str (dget (content bare_ready) ''t'') ''READY''"
    by (simp add: bare_ready_def dget_def)
  have mem: "bare_ready \<in> set (backlog holding_bare_ready)"
    by (simp add: holding_bare_ready_def)
  have emp: "backlog receiving_bare_ready = []"
    by (simp add: receiving_bare_ready_def GatewayClient_init_def)
  then have none: "\<forall>y \<in> set (backlog receiving_bare_ready). \<not> dispatch_matches ''READY'' None y"
    by simp
  have pos: "(0::rat) < 20" by simp
  have l15: "last15 ([] @ [''READY'']) = [''READY'']" by (simp add: last15_def)
  from non_dict_payload_unmatchable [OF h, of "''READY''" None 20 holding_bare_ready
      "snd (poll_once (1 / 2) receiving_bare_ready)" "[]" 20 "[(0, ''READY'', None, 20)]"]
  have p1: "fst (wait_dispatch ''READY'' None 20 holding_bare_ready) \<noteq> Inr bare_ready"
    and p4: "bare_ready \<in> set (backlog holding_bare_ready) \<longrightarrow>
       bare_ready \<in> set (backlog (snd (run_awaits [(0, ''READY'', None, 20)] holding_bare_ready))) \<and>
       Inr bare_ready \<notin> set (fst (run_awaits [(0, ''READY'', None, 20)] holding_bare_ready))"
    by blast+
  from non_dict_payload_unmatchable [OF h, of "''READY''" None 20 receiving_bare_ready
      "snd (poll_once (1 / 2) receiving_bare_ready)" "[]" 20 "[(0, ''READY'', None, 20)]"]
    po' c l15 none pos
  have p3: "wait_dispatch_step ''READY'' None [] receiving_bare_ready =
       Continue ([''READY''],
         (snd (poll_once (1 / 2) receiving_bare_ready))
           \<lparr>backlog := backlog (snd (poll_once (1 / 2) receiving_bare_ready)) @ [bare_ready]\<rparr>)"
    and p5: "fst (wait_dispatch ''READY'' None 20 receiving_bare_ready) \<noteq> Inr bare_ready"
    and p6: "bare_ready \<in> set (backlog (snd (wait_dispatch ''READY'' None 20 receiving_bare_ready)))
       \<and> bare_ready \<in> set (backlog (snd (run_awaits [(0, ''READY'', None, 20)]
            (snd (wait_dispatch ''READY'' None 20 receiving_bare_ready)))))
       \<and> Inr bare_ready \<notin> set (fst (run_awaits [(0, ''READY'', None, 20)]
            (snd (wait_dispatch ''READY'' None 20 receiving_bare_ready))))"
    by simp_all
  from h p1 po p3 mem p4 emp p5 p6 show ?thesis by blast
qed

section \<open>Verification: \<open>wait_dispatch\<close> hands out each message at most once\<close>

text \<open>
  Every message that \<open>_poll_once\<close> decodes is a new Python object; the model numbers
  the objects from \<open>next_object\<close>. \<open>fresh_ok\<close> says that the objects in the backlog are
  distinct and were all allocated already. \<open>grows s s1\<close> says that \<open>s1\<close> is well formed
  and that every object in its backlog either was in the backlog of \<open>s\<close> or has been
  allocated since. \<open>taken s m s1\<close> says that \<open>m\<close> was in the backlog of \<open>s\<close> or
  has been allocated since, and is not in the backlog of \<open>s1\<close>.
  \<open>returned\<close> lists the messages that a run of calls returned.
\<close>

definition fresh_ok :: "session \<Rightarrow> bool" where
  "fresh_ok s = (distinct (map obj_id (backlog s)) \<and>
                 (\<forall>x \<in> set (backlog s). obj_id x < next_object s))"

definition grows :: "session \<Rightarrow> session \<Rightarrow> bool" where
  "grows s s1 = (fresh_ok s1 \<and> next_object s \<le> next_object s1 \<and>
     (\<forall>x \<in> set (backlog s1). obj_id x \<in> obj_id ` set (backlog s) \<or> next_object s \<le> obj_id x))"

definition taken :: "session \<Rightarrow> msg \<Rightarrow> session \<Rightarrow> bool" where
  "taken s m s1 = (obj_id m \<notin> obj_id ` set (backlog s1) \<and> obj_id m < next_object s1 \<and>
     (obj_id m \<in> obj_id ` set (backlog s) \<or> next_object s \<le> obj_id m))"

fun returned :: "(error + msg) list \<Rightarrow> msg list" where
  "returned [] = []"
| "returned (Inl exc # rs) = returned rs"
| "returned (Inr m # rs) = m # returned rs"

lemma fresh_ok_init: "fresh_ok (GatewayClient_init n u tok now fresh)"
  by (simp add: fresh_ok_def GatewayClient_init_def)














lemma fresh_ok_clock [simp]: "fresh_ok (s\<lparr>monotonic := t\<rparr>) = fresh_ok s"
  by (simp add: fresh_ok_def)

lemma grows_clock [simp]: "grows (s\<lparr>monotonic := t\<rparr>) s1 = grows s s1"
  by (simp add: grows_def)

lemma taken_clock [simp]: "taken (s\<lparr>monotonic := t\<rparr>) m s1 = taken s m s1"
  by (simp add: taken_def)














end
